theory Spec2Isabelle
  imports Complex_Main "HOL-Library.Sublist" "HOL-Library.AList"
begin

section \<open>Python values used by montecarlo.py\<close>

text \<open>
  The program is Python 2 (\<^verbatim>\<open>iteritems\<close>, integer \<^verbatim>\<open>/\<close>). Every exception the modelled
  code can raise is a value of \<open>error\<close>; a function that can raise returns
  \<open>error + 'a\<close> with \<open>Inl\<close> for the exception. \<open>SystemExit\<close> is what \<^verbatim>\<open>sys.exit()\<close>
  raises.
\<close>

datatype error = ValueError | IndexError | AttributeError | TypeError | SystemExit

subsection \<open>Floats\<close>

text \<open>
  A Python float is modelled as a real number or one of the three IEEE special values.
  Arithmetic on the special values follows IEEE 754; arithmetic on finite values is exact:
  the rounding of a result to 53 bits, the overflow of a sum or product, and the sign of
  zero are not modelled.
\<close>

datatype pyfloat = Num real | PosInf | NegInf | NaN

fun fl_add :: "pyfloat \<Rightarrow> pyfloat \<Rightarrow> pyfloat" where
  "fl_add (Num a) (Num b) = Num (a + b)"
| "fl_add NaN _ = NaN"
| "fl_add _ NaN = NaN"
| "fl_add PosInf NegInf = NaN"
| "fl_add NegInf PosInf = NaN"
| "fl_add PosInf _ = PosInf"
| "fl_add _ PosInf = PosInf"
| "fl_add NegInf _ = NegInf"
| "fl_add _ NegInf = NegInf"

definition inf_of_sign :: "real \<Rightarrow> pyfloat" where
  "inf_of_sign a = (if 0 < a then PosInf else if a < 0 then NegInf else NaN)"

fun fl_mul :: "pyfloat \<Rightarrow> pyfloat \<Rightarrow> pyfloat" where
  "fl_mul (Num a) (Num b) = Num (a * b)"
| "fl_mul NaN _ = NaN"
| "fl_mul _ NaN = NaN"
| "fl_mul (Num a) PosInf = inf_of_sign a"
| "fl_mul PosInf (Num a) = inf_of_sign a"
| "fl_mul (Num a) NegInf = inf_of_sign (- a)"
| "fl_mul NegInf (Num a) = inf_of_sign (- a)"
| "fl_mul PosInf PosInf = PosInf"
| "fl_mul NegInf NegInf = PosInf"
| "fl_mul PosInf NegInf = NegInf"
| "fl_mul NegInf PosInf = NegInf"

text \<open>Python's \<^verbatim>\<open>==\<close> on floats: a NaN is equal to nothing, itself included.\<close>

definition fl_eq :: "pyfloat \<Rightarrow> pyfloat \<Rightarrow> bool" where
  "fl_eq a b = (a \<noteq> NaN \<and> b \<noteq> NaN \<and> a = b)"

definition is_finite :: "pyfloat \<Rightarrow> bool" where
  "is_finite a = (case a of Num _ \<Rightarrow> True | _ \<Rightarrow> False)"

subsection \<open>Characters and tokens\<close>

text \<open>\<^verbatim>\<open>str.isspace\<close> and \<^verbatim>\<open>str.isdigit\<close> of a byte string, one character at a time.\<close>

definition isspace :: "char \<Rightarrow> bool" where
  "isspace c = (c = CHR '' '' \<or> c = CHR 0x09 \<or> c = CHR 0x0A \<or> c = CHR 0x0B
                \<or> c = CHR 0x0C \<or> c = CHR 0x0D)"

definition isdigit :: "char \<Rightarrow> bool" where
  "isdigit c = (c \<in> set ''0123456789'')"

definition digit_val :: "char \<Rightarrow> nat" where
  "digit_val c = length (takeWhile (\<lambda>d. d \<noteq> c) ''0123456789'') mod 10"

text \<open>\<^verbatim>\<open>int(s)\<close> on a string of decimal digits (the only strings the program passes).\<close>

definition int_of_digits :: "string \<Rightarrow> nat" where
  "int_of_digits s = foldl (\<lambda>n c. 10 * n + digit_val c) 0 s"

text \<open>
  \<^verbatim>\<open>s.split()\<close>: the maximal runs of non-whitespace characters, in order. \<open>cur\<close> is the
  token being read.
\<close>

fun split_acc :: "string \<Rightarrow> string \<Rightarrow> string list" where
  "split_acc cur [] = (if cur = [] then [] else [cur])"
| "split_acc cur (c # s) =
     (if isspace c then (if cur = [] then split_acc [] s else cur # split_acc [] s)
      else split_acc (cur @ [c]) s)"

definition split_ws :: "string \<Rightarrow> string list" where
  "split_ws s = split_acc [] s"

text \<open>\<^verbatim>\<open>s.split(',')\<close>: the fields between commas, empty fields kept.\<close>

fun split_comma_acc :: "string \<Rightarrow> string \<Rightarrow> string list" where
  "split_comma_acc cur [] = [cur]"
| "split_comma_acc cur (c # s) =
     (if c = CHR '','' then cur # split_comma_acc [] s else split_comma_acc (cur @ [c]) s)"

definition split_comma :: "string \<Rightarrow> string list" where
  "split_comma s = split_comma_acc [] s"

text \<open>
  \<^verbatim>\<open>line.find(key)\<close>: the first index at which \<open>key\<close> occurs in \<open>line\<close>, or \<open>-1\<close>.
\<close>

fun find_from :: "nat \<Rightarrow> string \<Rightarrow> string \<Rightarrow> int" where
  "find_from i [] key = (if key = [] then int i else -1)"
| "find_from i (c # s) key =
     (if prefix key (c # s) then int i else find_from (Suc i) s key)"

definition str_find :: "string \<Rightarrow> string \<Rightarrow> int" where
  "str_find line key = find_from 0 line key"

subsection \<open>Parsing a float\<close>

text \<open>
  \<^verbatim>\<open>float(s)\<close> of Python 2.7: surrounding whitespace is stripped; then an optional sign and
  either \<^verbatim>\<open>inf\<close>, \<^verbatim>\<open>infinity\<close> or \<^verbatim>\<open>nan\<close> in any case, or a decimal numeral with an
  optional fraction and an optional exponent. Anything else raises \<^verbatim>\<open>ValueError\<close>. A
  numeral of magnitude at least \<open>2^1024 - 2^970\<close> is read as an infinity, as rounding to
  the nearest double makes it.
\<close>

definition py_strip :: "string \<Rightarrow> string" where
  "py_strip s = rev (dropWhile isspace (rev (dropWhile isspace s)))"

definition lower :: "char \<Rightarrow> char" where
  "lower c = (let n = (of_char c :: nat) in if 65 \<le> n \<and> n \<le> 90 then char_of (n + 32) else c)"

definition fl_neg :: "pyfloat \<Rightarrow> pyfloat" where
  "fl_neg a = (case a of Num x \<Rightarrow> Num (- x) | PosInf \<Rightarrow> NegInf | NegInf \<Rightarrow> PosInf | NaN \<Rightarrow> NaN)"

text \<open>The exponent part, \<^verbatim>\<open>e\<close> or \<^verbatim>\<open>E\<close>, an optional sign and at least one digit.\<close>

definition parse_exponent :: "string \<Rightarrow> int option" where
  "parse_exponent s =
     (case s of
        [] \<Rightarrow> Some 0
      | c # r \<Rightarrow>
          if c = CHR ''e'' \<or> c = CHR ''E'' then
            (let (neg, ds) = (case r of
                               [] \<Rightarrow> (False, [])
                             | d # r' \<Rightarrow> if d = CHR ''-'' then (True, r')
                                         else if d = CHR ''+'' then (False, r')
                                         else (False, r))
             in if ds \<noteq> [] \<and> list_all isdigit ds
                then Some (if neg then - int (int_of_digits ds) else int (int_of_digits ds))
                else None)
          else None)"

definition double_overflow :: real where
  "double_overflow = 2 ^ 1024 - 2 ^ 970"

definition parse_decimal :: "string \<Rightarrow> pyfloat option" where
  "parse_decimal s =
     (let ip = takeWhile isdigit s;
          r1 = dropWhile isdigit s;
          (fp, r2) = (case r1 of
                        [] \<Rightarrow> ([], [])
                      | c # r \<Rightarrow> if c = CHR ''.'' then (takeWhile isdigit r, dropWhile isdigit r)
                                 else ([], r1))
      in if ip = [] \<and> fp = [] then None
         else (case parse_exponent r2 of
                 None \<Rightarrow> None
               | Some e \<Rightarrow>
                   (let m = real (int_of_digits (ip @ fp));
                        e' = e - int (length fp);
                        v = (if 0 \<le> e' then m * 10 ^ nat e' else m / 10 ^ nat (- e'))
                    in Some (if double_overflow \<le> v then PosInf else Num v))))"

definition py_float :: "string \<Rightarrow> error + pyfloat" where
  "py_float s0 =
     (let s = py_strip s0;
          (neg, body) = (case s of
                           [] \<Rightarrow> (False, [])
                         | c # r \<Rightarrow> if c = CHR ''-'' then (True, r)
                                    else if c = CHR ''+'' then (False, r)
                                    else (False, s));
          low = map lower body;
          r = (if low = ''inf'' \<or> low = ''infinity'' then Some PosInf
               else if low = ''nan'' then Some NaN
               else parse_decimal body)
      in case r of
           None \<Rightarrow> Inl ValueError
         | Some x \<Rightarrow> Inr (if neg then fl_neg x else x))"

subsection \<open>Rendering a float\<close>

text \<open>
  The format type \<^verbatim>\<open>f\<close> with precision \<open>p\<close>: the value rounded to \<open>p\<close> decimals (a tie
  goes to the even neighbour), written as sign, integer digits and, when \<open>p > 0\<close>, a point
  and exactly \<open>p\<close> fraction digits.
\<close>

definition round_half_even :: "real \<Rightarrow> int" where
  "round_half_even y =
     (let f = \<lfloor>y\<rfloor>; d = y - of_int f
      in if d < 1 / 2 then f else if 1 / 2 < d then f + 1
         else if even f then f else f + 1)"

definition digit_char :: "nat \<Rightarrow> char" where
  "digit_char n = ''0123456789'' ! (n mod 10)"

fun digits10 :: "nat \<Rightarrow> string" where
  "digits10 n = (if n < 10 then [digit_char n] else digits10 (n div 10) @ [digit_char n])"

declare digits10.simps [simp del]

definition fmt_fixed :: "nat \<Rightarrow> real \<Rightarrow> string" where
  "fmt_fixed p x =
     (let s = nat (round_half_even (\<bar>x\<bar> * 10 ^ p));
          fs = digits10 (s mod 10 ^ p)
      in (if x < 0 then ''-'' else [])
         @ digits10 (s div 10 ^ p)
         @ (if p = 0 then [] else CHR ''.'' # replicate (p - length fs) CHR ''0'' @ fs))"

definition fmt_f :: "nat \<Rightarrow> pyfloat \<Rightarrow> string" where
  "fmt_f p a =
     (case a of Num x \<Rightarrow> fmt_fixed p x | PosInf \<Rightarrow> ''inf'' | NegInf \<Rightarrow> ''-inf'' | NaN \<Rightarrow> ''nan'')"

definition ljust :: "nat \<Rightarrow> char \<Rightarrow> string \<Rightarrow> string" where
  "ljust w fill s = s @ replicate (w - length s) fill"

text \<open>
  The part of a format specification between \<^verbatim>\<open><\<close> and \<^verbatim>\<open>f\<close>, as Python reads it: a
  leading \<^verbatim>\<open>0\<close> makes the fill character \<^verbatim>\<open>0\<close>, then the width digits, then optionally a
  point and the precision digits. A point with no digit after it, and anything left over,
  raise \<^verbatim>\<open>ValueError\<close>. The result is fill, width and precision (6 when none is given).
\<close>

definition parse_num_format :: "string \<Rightarrow> error + (char \<times> nat \<times> nat)" where
  "parse_num_format nf =
     (let (fill, r0) = (case nf of
                          [] \<Rightarrow> (CHR '' '', [])
                        | c # r \<Rightarrow> if c = CHR ''0'' then (CHR ''0'', r) else (CHR '' '', nf));
          w = int_of_digits (takeWhile isdigit r0);
          r1 = dropWhile isdigit r0
      in case r1 of
           [] \<Rightarrow> Inr (fill, w, 6)
         | c # r2 \<Rightarrow>
             if c = CHR ''.'' then
               (let pd = takeWhile isdigit r2
                in if pd = [] \<or> dropWhile isdigit r2 \<noteq> [] then Inl ValueError
                   else Inr (fill, w, int_of_digits pd))
             else Inl ValueError)"

text \<open>
  One replacement field. The program only builds fields of the shape
  \<^verbatim>\<open>{:<\<close>\<open>nf\<close>\<^verbatim>\<open>f}\<close>; \<open>body\<close> is the text between the braces. A body of another shape is
  outside what the program can build and is rejected here.
\<close>

definition render_field :: "string \<Rightarrow> pyfloat \<Rightarrow> error + string" where
  "render_field body a =
     (case body of
        c1 # c2 # spec \<Rightarrow>
          if c1 = CHR '':'' \<and> c2 = CHR ''<'' \<and> spec \<noteq> [] \<and> last spec = CHR ''f'' then
            (case parse_num_format (butlast spec) of
               Inl e \<Rightarrow> Inl e
             | Inr (fill, w, p) \<Rightarrow> Inr (ljust w fill (fmt_f p a)))
          else Inl ValueError
      | _ \<Rightarrow> Inl ValueError)"

text \<open>
  \<^verbatim>\<open>template.format(*args)\<close> for templates made of literal text and automatically numbered
  fields. The first argument is the body of the field being read, if any. A field takes
  the next argument (\<^verbatim>\<open>IndexError\<close> when none is left) and then renders it; arguments left
  over are ignored.
\<close>

fun fmt_scan :: "string option \<Rightarrow> string \<Rightarrow> pyfloat list \<Rightarrow> error + string" where
  "fmt_scan None [] args = Inr []"
| "fmt_scan (Some b) [] args = Inl ValueError"
| "fmt_scan None (c # cs) args =
     (if c = CHR 0x7B then fmt_scan (Some []) cs args
      else if c = CHR 0x7D then Inl ValueError
      else (case fmt_scan None cs args of Inl e \<Rightarrow> Inl e | Inr out \<Rightarrow> Inr (c # out)))"
| "fmt_scan (Some b) (c # cs) args =
     (if c = CHR 0x7D then
        (case args of
           [] \<Rightarrow> Inl IndexError
         | a # as \<Rightarrow>
             (case render_field b a of
                Inl e \<Rightarrow> Inl e
              | Inr s \<Rightarrow>
                  (case fmt_scan None cs as of Inl e \<Rightarrow> Inl e | Inr out \<Rightarrow> Inr (s @ out))))
      else fmt_scan (Some (b @ [c])) cs args)"

definition py_format :: "string \<Rightarrow> pyfloat list \<Rightarrow> error + string" where
  "py_format template args = fmt_scan None template args"

subsection \<open>The three regular expressions of the format parser\<close>

text \<open>
  \<^verbatim>\<open>re.findall(r'(\d+)c', s)\<close> for a character \<open>c\<close> that is not a digit: at each position,
  the longest run of digits must be followed by \<open>c\<close>; a match yields the run and the scan
  goes on after \<open>c\<close>; otherwise the scan moves one character on.
\<close>

function findall_digits_then :: "char \<Rightarrow> string \<Rightarrow> string list" where
  "findall_digits_then c [] = []"
| "findall_digits_then c (a # s) =
     (if isdigit a then
        (case dropWhile isdigit (a # s) of
           [] \<Rightarrow> findall_digits_then c s
         | b # rest \<Rightarrow>
             if b = c then takeWhile isdigit (a # s) # findall_digits_then c rest
             else findall_digits_then c s)
      else findall_digits_then c s)"
  by pat_completeness auto
termination
proof (relation "measure (\<lambda>(c, s). length s)")
  fix c :: char and a :: char and s :: string and b :: char and rest :: string
  assume "dropWhile isdigit (a # s) = b # rest"
  then have "length (b # rest) \<le> length (a # s)"
    by (metis length_dropWhile_le)
  then show "((c, rest), (c, a # s)) \<in> measure (\<lambda>(c, s). length s)"
    by simp
qed auto

text \<open>
  \<^verbatim>\<open>re.findall(r'f([0-9.]+)', s)\<close>: an \<^verbatim>\<open>f\<close> followed by the longest non-empty run of
  digits and points.
\<close>

definition isspecchar :: "char \<Rightarrow> bool" where
  "isspecchar c = (isdigit c \<or> c = CHR ''.'')"

function findall_f :: "string \<Rightarrow> string list" where
  "findall_f [] = []"
| "findall_f (a # s) =
     (if a = CHR ''f'' \<and> takeWhile isspecchar s \<noteq> []
      then takeWhile isspecchar s # findall_f (dropWhile isspecchar s)
      else findall_f s)"
  by pat_completeness auto
termination
proof (relation "measure length")
  fix a :: char and s :: string
  have "length (dropWhile isspecchar s) \<le> length s"
    by (rule length_dropWhile_le)
  then show "(dropWhile isspecchar s, a # s) \<in> measure length"
    by simp
qed auto

text \<open>\<^verbatim>\<open>re.search(r'(\d+)\(', s)\<close>: group 1 of the leftmost match, or \<open>None\<close>.\<close>

definition search_cols :: "string \<Rightarrow> string option" where
  "search_cols s = (case findall_digits_then CHR 0x28 s of [] \<Rightarrow> None | g # _ \<Rightarrow> Some g)"

subsection \<open>The numpy calls of the program\<close>

text \<open>
  \<^verbatim>\<open>np.zeros((r, c))\<close> and \<^verbatim>\<open>np.random.randn(r, c)\<close>. A dimension that is \<^verbatim>\<open>None\<close> raises
  \<^verbatim>\<open>TypeError\<close>, a negative one \<^verbatim>\<open>ValueError\<close>. A matrix is the list of its rows. The
  normal sampler is a parameter: \<open>sample i j\<close> is the draw that lands in cell \<open>(i, j)\<close>.
\<close>

definition np_dims :: "int \<Rightarrow> int option \<Rightarrow> error + (nat \<times> nat)" where
  "np_dims r c =
     (case c of
        None \<Rightarrow> Inl TypeError
      | Some c' \<Rightarrow> if r < 0 \<or> c' < 0 then Inl ValueError else Inr (nat r, nat c'))"

definition np_zeros :: "int \<Rightarrow> int option \<Rightarrow> error + pyfloat list list" where
  "np_zeros r c =
     (case np_dims r c of
        Inl e \<Rightarrow> Inl e
      | Inr (nr, nc) \<Rightarrow> Inr (replicate nr (replicate nc (Num 0))))"

definition np_randn :: "(nat \<Rightarrow> nat \<Rightarrow> real) \<Rightarrow> int \<Rightarrow> int option \<Rightarrow> error + pyfloat list list" where
  "np_randn sample r c =
     (case np_dims r c of
        Inl e \<Rightarrow> Inl e
      | Inr (nr, nc) \<Rightarrow> Inr (map (\<lambda>i. map (\<lambda>j. Num (sample i j)) [0..<nc]) [0..<nr]))"

text \<open>\<^verbatim>\<open>a[r, i]\<close> with indices that are not negative.\<close>

definition np_get :: "pyfloat list list \<Rightarrow> nat \<Rightarrow> nat \<Rightarrow> error + pyfloat" where
  "np_get a r i =
     (if r < length a \<and> i < length (a ! r) then Inr (a ! r ! i) else Inl IndexError)"

section \<open>montecarlo.py\<close>

subsection \<open>is_data_line\<close>

text \<open>
  \<^verbatim>\<open>len(line) > 0 and str.isdigit(line[0][0])\<close> on a list of tokens. An empty first token
  makes \<^verbatim>\<open>line[0][0]\<close> raise \<^verbatim>\<open>IndexError\<close>.
\<close>

definition is_data_line :: "string list \<Rightarrow> error + bool" where
  "is_data_line line =
     (case line of
        [] \<Rightarrow> Inr False
      | t # _ \<Rightarrow> (case t of [] \<Rightarrow> Inl IndexError | c # _ \<Rightarrow> Inr (isdigit c)))"

text \<open>\<^verbatim>\<open>[float(x) for x in xs]\<close>.\<close>

fun float_list :: "string list \<Rightarrow> error + pyfloat list" where
  "float_list [] = Inr []"
| "float_list (x # xs) =
     (case py_float x of
        Inl e \<Rightarrow> Inl e
      | Inr v \<Rightarrow> (case float_list xs of Inl e \<Rightarrow> Inl e | Inr vs \<Rightarrow> Inr (v # vs)))"

subsection \<open>class SDFile\<close>

record SDFile =
  sd_lines :: "string list"
  block_nums :: "int list"
  num_blocks :: int
  cols :: "int option"
  rnd :: "pyfloat list list"

text \<open>
  \<^verbatim>\<open>_set_block_nums\<close>: the loop over \<^verbatim>\<open>enumerate(self.lines)\<close>, with \<open>bn\<close> the list
  \<^verbatim>\<open>block_nums\<close> and \<open>n\<close> the counter \<^verbatim>\<open>n_line\<close>.
\<close>

fun set_block_nums_loop :: "(nat \<times> string) list \<Rightarrow> int list \<Rightarrow> int \<Rightarrow> error + (int list \<times> int)" where
  "set_block_nums_loop [] bn n = Inr (bn, n)"
| "set_block_nums_loop ((i, line) # r) bn n =
     (case is_data_line (split_ws line) of
        Inl e \<Rightarrow> Inl e
      | Inr d \<Rightarrow> if d then set_block_nums_loop r (bn[i := n div 6]) (n + 1)
                else set_block_nums_loop r bn n)"

definition SDFile_set_block_nums :: "SDFile \<Rightarrow> error + SDFile" where
  "SDFile_set_block_nums s =
     (case set_block_nums_loop (enumerate 0 (sd_lines s)) (block_nums s) 0 of
        Inl e \<Rightarrow> Inl e
      | Inr (bn, n) \<Rightarrow> Inr (s\<lparr>block_nums := bn, num_blocks := n div 6\<rparr>))"

text \<open>\<^verbatim>\<open>_count_cols\<close>: \<open>None\<close> when the loop ends without a \<^verbatim>\<open>return\<close>.\<close>

fun count_cols_loop :: "string list \<Rightarrow> error + int option" where
  "count_cols_loop [] = Inr None"
| "count_cols_loop (line # r) =
     (case is_data_line (split_ws line) of
        Inl e \<Rightarrow> Inl e
      | Inr d \<Rightarrow> if d then Inr (Some (int (length (split_ws line)) - 1))
                else count_cols_loop r)"

definition SDFile_count_cols :: "SDFile \<Rightarrow> error + int option" where
  "SDFile_count_cols s = count_cols_loop (sd_lines s)"

definition SDFile_generate_rnd ::
  "(nat \<Rightarrow> nat \<Rightarrow> real) \<Rightarrow> SDFile \<Rightarrow> bool \<Rightarrow> error + pyfloat list list" where
  "SDFile_generate_rnd sample s zero_run =
     (if zero_run then np_zeros (num_blocks s div 2) (cols s)
      else np_randn sample (num_blocks s div 2) (cols s))"

text \<open>\<^verbatim>\<open>SDFile.__init__\<close>, given the lines of the standard-deviation file.\<close>

definition SDFile_init :: "(nat \<Rightarrow> nat \<Rightarrow> real) \<Rightarrow> string list \<Rightarrow> bool \<Rightarrow> error + SDFile" where
  "SDFile_init sample ls zero_run =
     (let s0 = \<lparr>sd_lines = ls, block_nums = replicate (length ls) (- 1), num_blocks = 0,
                cols = None, rnd = []\<rparr>
      in case SDFile_set_block_nums s0 of
           Inl e \<Rightarrow> Inl e
         | Inr s1 \<Rightarrow>
             (case SDFile_count_cols s1 of
                Inl e \<Rightarrow> Inl e
              | Inr c \<Rightarrow>
                  (let s2 = s1\<lparr>cols := c\<rparr>
                   in case SDFile_generate_rnd sample s2 zero_run of
                        Inl e \<Rightarrow> Inl e
                      | Inr m \<Rightarrow> Inr (s2\<lparr>rnd := m\<rparr>))))"

definition SDFile_get_block_num :: "SDFile \<Rightarrow> nat \<Rightarrow> error + int" where
  "SDFile_get_block_num s line_num =
     (if line_num < length (block_nums s) then Inr (block_nums s ! line_num)
      else Inl IndexError)"

text \<open>
  \<^verbatim>\<open>sd_list\<close>. \<open>sd_items\<close> is its list comprehension over \<^verbatim>\<open>enumerate(sds[1:])\<close>, reading
  row \<open>r\<close> from column \<open>i\<close> on; \<open>SDFile_row\<close> is the row index \<^verbatim>\<open>block_num%2\<close> it uses.
\<close>

fun sd_items :: "pyfloat list list \<Rightarrow> nat \<Rightarrow> nat \<Rightarrow> string list \<Rightarrow> error + pyfloat list" where
  "sd_items m r i [] = Inr []"
| "sd_items m r i (sd # sds) =
     (case py_float sd of
        Inl e \<Rightarrow> Inl e
      | Inr x \<Rightarrow>
          (case np_get m r i of
             Inl e \<Rightarrow> Inl e
           | Inr c \<Rightarrow>
               (case sd_items m r (Suc i) sds of
                  Inl e \<Rightarrow> Inl e
                | Inr rest \<Rightarrow> Inr (fl_mul x c # rest))))"

definition SDFile_row :: "SDFile \<Rightarrow> nat \<Rightarrow> error + nat" where
  "SDFile_row s line_num =
     (case SDFile_get_block_num s line_num of
        Inl e \<Rightarrow> Inl e
      | Inr block_num \<Rightarrow> Inr (nat (block_num mod 2)))"

definition SDFile_sd_list :: "SDFile \<Rightarrow> nat \<Rightarrow> error + pyfloat list" where
  "SDFile_sd_list s line_num =
     (case SDFile_row s line_num of
        Inl e \<Rightarrow> Inl e
      | Inr r \<Rightarrow>
          if line_num < length (sd_lines s)
          then sd_items (rnd s) r 0 (drop 1 (split_ws (sd_lines s ! line_num)))
          else Inl IndexError)"

subsection \<open>class VFile\<close>

text \<open>
  The open output file \<^verbatim>\<open>mc_file\<close> is not a field: \<open>VFile_print_mc\<close> returns what
  \<^verbatim>\<open>print_mc\<close> writes to it.
\<close>

record VFile =
  lines :: "string list"
  frmt_str :: string

definition VFile_num_lines :: "'a VFile_scheme \<Rightarrow> nat" where
  "VFile_num_lines f = length (lines f)"

definition VFile_print_mc :: "'a VFile_scheme \<Rightarrow> string" where
  "VFile_print_mc f = concat (map (\<lambda>line. line @ [CHR 0x0A]) (lines f))"

definition VFile_format_line ::
  "pyfloat list \<Rightarrow> nat \<Rightarrow> 'a VFile_scheme \<Rightarrow> error + 'a VFile_scheme" where
  "VFile_format_line out_list line_num f =
     (case py_format (frmt_str f) out_list of
        Inl e \<Rightarrow> Inl e
      | Inr formatted \<Rightarrow>
          if line_num < length (lines f)
          then Inr (f\<lparr>lines := (lines f)[line_num := formatted]\<rparr>)
          else Inl IndexError)"

text \<open>
  \<^verbatim>\<open>vary\<close>: \<^verbatim>\<open>vary_line\<close> for each index of \<^verbatim>\<open>range(self.num_lines())\<close>; the subclass's
  \<^verbatim>\<open>vary_line\<close> is the parameter \<open>vl\<close>.
\<close>

fun vary_loop :: "(nat \<Rightarrow> 'f \<Rightarrow> error + 'f) \<Rightarrow> nat list \<Rightarrow> 'f \<Rightarrow> error + 'f" where
  "vary_loop vl [] f = Inr f"
| "vary_loop vl (n # ns) f =
     (case vl n f of Inl e \<Rightarrow> Inl e | Inr f' \<Rightarrow> vary_loop vl ns f')"

definition VFile_vary ::
  "(nat \<Rightarrow> 'a VFile_scheme \<Rightarrow> error + 'a VFile_scheme) \<Rightarrow> 'a VFile_scheme \<Rightarrow> error + 'a VFile_scheme" where
  "VFile_vary vl f = vary_loop vl [0..<VFile_num_lines f] f"

subsection \<open>class DatFile\<close>

record DatFile = VFile +
  sdfile :: SDFile

text \<open>
  \<open>DatFile_varied\<close> is the part of \<^verbatim>\<open>vary_line\<close> before \<^verbatim>\<open>format_line\<close>: \<open>None\<close> for a line
  that is not a data line, else the list \<^verbatim>\<open>varied\<close>.
\<close>

definition DatFile_varied :: "DatFile \<Rightarrow> nat \<Rightarrow> error + pyfloat list option" where
  "DatFile_varied f line_num =
     (if line_num < length (lines f) then
        (let means = split_ws (lines f ! line_num)
         in case is_data_line means of
              Inl e \<Rightarrow> Inl e
            | Inr d \<Rightarrow>
                if d then
                  (case SDFile_sd_list (sdfile f) line_num of
                     Inl e \<Rightarrow> Inl e
                   | Inr sds \<Rightarrow>
                       (case float_list (drop 1 means) of
                          Inl e \<Rightarrow> Inl e
                        | Inr ms \<Rightarrow> Inr (Some (map (\<lambda>(m, sd). fl_add m sd) (zip ms sds)))))
                else Inr None)
      else Inl IndexError)"

definition DatFile_vary_line :: "nat \<Rightarrow> DatFile \<Rightarrow> error + DatFile" where
  "DatFile_vary_line line_num f =
     (case DatFile_varied f line_num of
        Inl e \<Rightarrow> Inl e
      | Inr None \<Rightarrow> Inr f
      | Inr (Some varied) \<Rightarrow> VFile_format_line varied line_num f)"

definition DatFile_parse_format :: "string \<Rightarrow> error + string" where
  "DatFile_parse_format frmt_line =
     (case map int_of_digits (findall_digits_then CHR ''x'' frmt_line) of
        [lead_spaces, num_spaces] \<Rightarrow>
          (case findall_f frmt_line of
             [] \<Rightarrow> Inl IndexError
           | num_format # _ \<Rightarrow>
               (case search_cols frmt_line of
                  None \<Rightarrow> Inl AttributeError
                | Some g \<Rightarrow>
                    Inr (replicate lead_spaces CHR '' ''
                         @ concat (replicate (int_of_digits g)
                             ([CHR 0x7B] @ '':<'' @ num_format @ ''f'' @ [CHR 0x7D]
                              @ replicate num_spaces CHR '' '')))))
      | _ \<Rightarrow> Inl ValueError)"

text \<open>\<^verbatim>\<open>_lines_format\<close>, given the lines of the \<^verbatim>\<open>.def\<close> file: \<^verbatim>\<open>f.readlines()[-1]\<close>.\<close>

definition DatFile_lines_format :: "string list \<Rightarrow> error + string" where
  "DatFile_lines_format def_lines =
     (if def_lines = [] then Inl IndexError else Inr (last def_lines))"

definition DatFile_set_format :: "string list \<Rightarrow> DatFile \<Rightarrow> error + DatFile" where
  "DatFile_set_format def_lines f =
     (case DatFile_lines_format def_lines of
        Inl e \<Rightarrow> Inl e
      | Inr frmt_line \<Rightarrow>
          (case DatFile_parse_format frmt_line of
             Inl e \<Rightarrow> Inl e
           | Inr t \<Rightarrow> Inr (f\<lparr>frmt_str := t\<rparr>)))"

text \<open>
  \<^verbatim>\<open>DatFile.__init__\<close>, given the lines of the baseline file, of the standard-deviation file
  and of the \<^verbatim>\<open>.def\<close> file, and the class attribute \<^verbatim>\<open>zero_run\<close>.
\<close>

definition DatFile_init ::
  "(nat \<Rightarrow> nat \<Rightarrow> real) \<Rightarrow> bool \<Rightarrow> string list \<Rightarrow> string list \<Rightarrow> string list \<Rightarrow> error + DatFile" where
  "DatFile_init sample zero_run ls sd_ls def_lines =
     (case SDFile_init sample sd_ls zero_run of
        Inl e \<Rightarrow> Inl e
      | Inr s \<Rightarrow> DatFile_set_format def_lines \<lparr>lines = ls, frmt_str = [], sdfile = s\<rparr>)"

definition DatFile_vary :: "DatFile \<Rightarrow> error + DatFile" where
  "DatFile_vary f = VFile_vary DatFile_vary_line f"

subsection \<open>class Effects\<close>

text \<open>
  The dictionary \<^verbatim>\<open>sd_pairs\<close> is an association list with distinct keys; \<^verbatim>\<open>iteritems()\<close>
  and \<^verbatim>\<open>keys()\<close> visit it in list order. Python 2 leaves the order of a dictionary
  open, so what is proved of a lookup is proved for every order of the list.
\<close>

record Effects =
  sd_pairs :: "(string \<times> pyfloat) list"
  eff_lines :: "string list"
  eff_rnd :: "pyfloat list"

text \<open>
  \<^verbatim>\<open>_generate_rnd\<close>: \<^verbatim>\<open>[0]*size\<close> is empty for a negative size, \<^verbatim>\<open>np.random.randn(size)\<close>
  raises \<^verbatim>\<open>ValueError\<close> for one. \<open>sample i\<close> is the draw at index \<open>i\<close>.
\<close>

definition Effects_generate_rnd :: "(nat \<Rightarrow> real) \<Rightarrow> bool \<Rightarrow> Effects \<Rightarrow> error + Effects" where
  "Effects_generate_rnd sample zero_run e =
     (let size = int (length (eff_lines e)) - 1
      in if zero_run then Inr (e\<lparr>eff_rnd := replicate (nat size) (Num 0)\<rparr>)
         else if size < 0 then Inl ValueError
         else Inr (e\<lparr>eff_rnd := map (\<lambda>i. Num (sample i)) [0..<nat size]\<rparr>))"

text \<open>\<^verbatim>\<open>_generate_pairs\<close>: the loop over \<^verbatim>\<open>enumerate(sd_lines)\<close>, with \<open>d\<close> the dictionary.\<close>

fun generate_pairs_loop ::
  "pyfloat list \<Rightarrow> (nat \<times> string) list \<Rightarrow> (string \<times> pyfloat) list \<Rightarrow> error + (string \<times> pyfloat) list" where
  "generate_pairs_loop r [] d = Inr d"
| "generate_pairs_loop r ((i, line) # rest) d =
     (case split_comma line of
        [key, sd] \<Rightarrow>
          (case py_float sd of
             Inl e \<Rightarrow> Inl e
           | Inr x \<Rightarrow>
               if i < length r
               then generate_pairs_loop r rest (AList.update key (fl_mul x (r ! i)) d)
               else Inl IndexError)
      | _ \<Rightarrow> Inl ValueError)"

definition Effects_generate_pairs :: "Effects \<Rightarrow> error + Effects" where
  "Effects_generate_pairs e =
     (case generate_pairs_loop (eff_rnd e) (enumerate 0 (drop 1 (eff_lines e))) (sd_pairs e) of
        Inl err \<Rightarrow> Inl err
      | Inr d \<Rightarrow> Inr (e\<lparr>sd_pairs := d\<rparr>))"

text \<open>\<^verbatim>\<open>Effects.__init__\<close>, given the lines of \<^verbatim>\<open>effect_mc.txt\<close>.\<close>

definition Effects_init :: "(nat \<Rightarrow> real) \<Rightarrow> string list \<Rightarrow> bool \<Rightarrow> error + Effects" where
  "Effects_init sample ls zero_run =
     (case Effects_generate_rnd sample zero_run \<lparr>sd_pairs = [], eff_lines = ls, eff_rnd = []\<rparr> of
        Inl err \<Rightarrow> Inl err
      | Inr e \<Rightarrow> Effects_generate_pairs e)"

text \<open>\<^verbatim>\<open>_test_repeats\<close>: \<^verbatim>\<open>sys.exit()\<close> when another key occurs in the line.\<close>

definition Effects_test_repeats :: "Effects \<Rightarrow> string \<Rightarrow> string \<Rightarrow> error + unit" where
  "Effects_test_repeats e key line =
     (let other_keys = filter (\<lambda>k. k \<noteq> key) (map fst (sd_pairs e))
      in if list_ex (\<lambda>k. str_find line k \<noteq> - 1) other_keys then Inl SystemExit else Inr ())"

text \<open>\<^verbatim>\<open>get_sd\<close>: the loop over the items; \<open>None\<close> when it ends without a \<^verbatim>\<open>return\<close>.\<close>

fun get_sd_loop :: "Effects \<Rightarrow> (string \<times> pyfloat) list \<Rightarrow> string \<Rightarrow> error + pyfloat option" where
  "get_sd_loop e [] line = Inr None"
| "get_sd_loop e ((key, sd) # rest) line =
     (if str_find line key \<noteq> - 1 then
        (case Effects_test_repeats e key line of
           Inl err \<Rightarrow> Inl err
         | Inr _ \<Rightarrow> Inr (Some sd))
      else get_sd_loop e rest line)"

definition Effects_get_sd :: "Effects \<Rightarrow> string \<Rightarrow> error + pyfloat option" where
  "Effects_get_sd e line = get_sd_loop e (sd_pairs e) line"

subsection \<open>class InpFile\<close>

record InpFile = VFile +
  effects :: Effects

text \<open>
  \<open>InpFile_varied\<close> is the part of \<^verbatim>\<open>vary_line\<close> before \<^verbatim>\<open>format_line\<close>: \<open>None\<close> when
  \<^verbatim>\<open>get_sd\<close> returns \<^verbatim>\<open>None\<close>, else the value \<^verbatim>\<open>varied\<close>. \<^verbatim>\<open>line.split()[0]\<close> raises
  \<^verbatim>\<open>IndexError\<close> on a line without a token.
\<close>

definition InpFile_varied :: "InpFile \<Rightarrow> nat \<Rightarrow> error + pyfloat option" where
  "InpFile_varied f line_num =
     (if line_num < length (lines f) then
        (let line = lines f ! line_num
         in case Effects_get_sd (effects f) line of
              Inl e \<Rightarrow> Inl e
            | Inr None \<Rightarrow> Inr None
            | Inr (Some sd) \<Rightarrow>
                (case split_ws line of
                   [] \<Rightarrow> Inl IndexError
                 | t # _ \<Rightarrow>
                     (case py_float t of
                        Inl e \<Rightarrow> Inl e
                      | Inr mean \<Rightarrow> Inr (Some (fl_add mean (fl_mul sd mean))))))
      else Inl IndexError)"

definition InpFile_vary_line :: "nat \<Rightarrow> InpFile \<Rightarrow> error + InpFile" where
  "InpFile_vary_line line_num f =
     (case InpFile_varied f line_num of
        Inl e \<Rightarrow> Inl e
      | Inr None \<Rightarrow> Inr f
      | Inr (Some varied) \<Rightarrow> VFile_format_line [varied] line_num f)"

text \<open>
  \<^verbatim>\<open>InpFile.__init__\<close>, given the lines of the baseline file and of \<^verbatim>\<open>effect_mc.txt\<close>, and
  the class attribute \<^verbatim>\<open>zero_run\<close>.
\<close>

definition InpFile_init :: "(nat \<Rightarrow> real) \<Rightarrow> bool \<Rightarrow> string list \<Rightarrow> string list \<Rightarrow> error + InpFile" where
  "InpFile_init sample zero_run ls eff_ls =
     (case Effects_init sample eff_ls zero_run of
        Inl e \<Rightarrow> Inl e
      | Inr eff \<Rightarrow>
          Inr \<lparr>lines = ls, frmt_str = [CHR 0x7B] @ '':<8.6f'' @ [CHR 0x7D], effects = eff\<rparr>)"

definition InpFile_vary :: "InpFile \<Rightarrow> error + InpFile" where
  "InpFile_vary f = VFile_vary InpFile_vary_line f"

subsection \<open>main\<close>

text \<open>
  The body of each loop of \<^verbatim>\<open>main\<close> for one file name: construct, \<^verbatim>\<open>vary()\<close>,
  \<^verbatim>\<open>print_mc()\<close>. The result is the text written to the output file; an exception leaves
  the loop and ends the run.
\<close>

definition main_dat ::
  "(nat \<Rightarrow> nat \<Rightarrow> real) \<Rightarrow> bool \<Rightarrow> string list \<Rightarrow> string list \<Rightarrow> string list \<Rightarrow> error + string" where
  "main_dat sample zero_run ls sd_ls def_lines =
     (case DatFile_init sample zero_run ls sd_ls def_lines of
        Inl e \<Rightarrow> Inl e
      | Inr datfile \<Rightarrow>
          (case DatFile_vary datfile of
             Inl e \<Rightarrow> Inl e
           | Inr datfile' \<Rightarrow> Inr (VFile_print_mc datfile')))"

definition main_inp ::
  "(nat \<Rightarrow> real) \<Rightarrow> bool \<Rightarrow> string list \<Rightarrow> string list \<Rightarrow> error + string" where
  "main_inp sample zero_run ls eff_ls =
     (case InpFile_init sample zero_run ls eff_ls of
        Inl e \<Rightarrow> Inl e
      | Inr inpfile \<Rightarrow>
          (case InpFile_vary inpfile of
             Inl e \<Rightarrow> Inl e
           | Inr inpfile' \<Rightarrow> Inr (VFile_print_mc inpfile')))"

section \<open>Vocabulary of the properties\<close>

text \<open>
  A line is a data line when its first whitespace-delimited token starts with a decimal
  digit. \<open>count_data\<close> counts the data lines of a file, so \<open>count_data (take n ls)\<close> is
  the ordinal of line \<open>n\<close> among the data lines.
\<close>

definition data_line :: "string \<Rightarrow> bool" where
  "data_line l = (case split_ws l of [] \<Rightarrow> False | t # _ \<Rightarrow> isdigit (hd t))"

definition count_data :: "string list \<Rightarrow> nat" where
  "count_data ls = length (filter data_line ls)"

text \<open>
  The tokens of a format descriptor. \<open>count_digit_then c s\<close> counts the places of \<open>s\<close>
  where a decimal digit stands immediately before the character \<open>c\<close>: with \<^verbatim>\<open>x\<close> the
  padding tokens \<^verbatim>\<open><N>x\<close>, with \<^verbatim>\<open>(\<close> the repeat-count tokens \<^verbatim>\<open><N>(\<close>.
  \<open>has_field_spec s\<close> says that somewhere an \<^verbatim>\<open>f\<close> stands immediately before a digit or a
  point.
\<close>

fun count_digit_then :: "char \<Rightarrow> string \<Rightarrow> nat" where
  "count_digit_then c (a # b # s) =
     (if isdigit a \<and> b = c then 1 else 0) + count_digit_then c (b # s)"
| "count_digit_then c _ = 0"

fun has_field_spec :: "string \<Rightarrow> bool" where
  "has_field_spec (a # b # s) = ((a = CHR ''f'' \<and> isspecchar b) \<or> has_field_spec (b # s))"
| "has_field_spec _ = False"

section \<open>Tokens and data lines\<close>

lemma split_acc_no_empty: "[] \<notin> set (split_acc cur s)"
  by (induction s arbitrary: cur) auto

lemma split_ws_no_empty: "[] \<notin> set (split_ws s)"
  by (simp add: split_ws_def split_acc_no_empty)

text \<open>On the tokens of a line \<^verbatim>\<open>is_data_line\<close> never raises: no token is empty.\<close>

lemma is_data_line_split: "is_data_line (split_ws l) = Inr (data_line l)"
proof (cases "split_ws l")
  case Nil
  then show ?thesis by (simp add: is_data_line_def data_line_def)
next
  case (Cons t ts)
  then have "t \<noteq> []" using split_ws_no_empty[of l] by auto
  with Cons show ?thesis
    by (cases t) (simp_all add: is_data_line_def data_line_def)
qed

lemma split_acc_blank: "\<forall>c\<in>set s. isspace c \<Longrightarrow> split_acc [] s = []"
  by (induction s) auto

lemma split_ws_blank: "\<forall>c\<in>set s. isspace c \<Longrightarrow> split_ws s = []"
  by (simp add: split_ws_def split_acc_blank)

lemma data_line_blank: "\<forall>c\<in>set s. isspace c \<Longrightarrow> \<not> data_line s"
  by (simp add: data_line_def split_ws_blank)

lemma DatFile_varied_non_data:
  "n < length (lines f) \<Longrightarrow> \<not> data_line (lines f ! n) \<Longrightarrow> DatFile_varied f n = Inr None"
  by (simp add: DatFile_varied_def is_data_line_split)

lemma DatFile_vary_line_non_data:
  "n < length (lines f) \<Longrightarrow> \<not> data_line (lines f ! n) \<Longrightarrow> DatFile_vary_line n f = Inr f"
  by (simp add: DatFile_vary_line_def DatFile_varied_non_data)

text \<open>
  C10. A line that is empty or consists of whitespace only has no token; on its (empty)
  token list \<^verbatim>\<open>is_data_line\<close> returns \<^verbatim>\<open>False\<close> and does not raise, and
  \<^verbatim>\<open>DatFile.vary_line\<close> returns with the file unchanged.
\<close>

theorem blank_line_not_data:
  assumes "\<forall>c\<in>set (lines f ! n). isspace c" and "n < length (lines f)"
  shows "is_data_line (split_ws (lines f ! n)) = Inr False \<and> DatFile_vary_line n f = Inr f"
  using assms
  by (simp add: is_data_line_split data_line_blank DatFile_vary_line_non_data)

theorem blank_line_not_data_witness:
  "is_data_line (split_ws '' '') = Inr False
   \<and> DatFile_vary_line 1
       \<lparr>lines = [''1 2.0'', '' ''], frmt_str = [],
        sdfile = \<lparr>sd_lines = [], block_nums = [], num_blocks = 0, cols = None, rnd = []\<rparr>\<rparr>
     = Inr \<lparr>lines = [''1 2.0'', '' ''], frmt_str = [],
            sdfile = \<lparr>sd_lines = [], block_nums = [], num_blocks = 0, cols = None, rnd = []\<rparr>\<rparr>"
  using blank_line_not_data
    [of "\<lparr>lines = [''1 2.0'', '' ''], frmt_str = [],
          sdfile = \<lparr>sd_lines = [], block_nums = [], num_blocks = 0, cols = None, rnd = []\<rparr>\<rparr>" 1]
  by (simp add: isspace_def)

section \<open>Key lookup\<close>

lemma find_from_found: "find_from i s key \<noteq> - 1 \<longleftrightarrow> sublist key s"
  by (induction s arbitrary: i) (auto simp: sublist_Cons_right)

lemma str_find_sublist: "str_find line key \<noteq> - 1 \<longleftrightarrow> sublist key line"
  by (simp add: str_find_def find_from_found)

lemma test_repeats_exit:
  "Effects_test_repeats e key line = Inl SystemExit \<longleftrightarrow>
     (\<exists>k\<in>fst ` set (sd_pairs e). k \<noteq> key \<and> sublist k line)"
  by (auto simp: Effects_test_repeats_def list_ex_iff str_find_sublist)

lemma test_repeats_ok:
  "Effects_test_repeats e key line = Inr () \<longleftrightarrow>
     \<not> (\<exists>k\<in>fst ` set (sd_pairs e). k \<noteq> key \<and> sublist k line)"
  by (auto simp: Effects_test_repeats_def list_ex_iff str_find_sublist)

lemma get_sd_loop_none:
  "\<forall>k\<in>fst ` set ps. \<not> sublist k line \<Longrightarrow> get_sd_loop e ps line = Inr None"
  by (induction ps) (auto simp: str_find_sublist)

lemma get_sd_loop_exit:
  assumes "\<forall>k\<in>fst ` set ps. sublist k line \<longrightarrow> Effects_test_repeats e k line = Inl SystemExit"
    and "\<exists>k\<in>fst ` set ps. sublist k line"
  shows "get_sd_loop e ps line = Inl SystemExit"
  using assms
proof (induction ps)
  case Nil
  then show ?case by simp
next
  case (Cons p ps)
  obtain key sd where p: "p = (key, sd)" by (cases p)
  show ?case
  proof (cases "sublist key line")
    case True
    then have "Effects_test_repeats e key line = Inl SystemExit"
      using Cons.prems(1) p by simp
    then show ?thesis
      using True by (simp add: p str_find_sublist)
  next
    case False
    have 1: "\<forall>k\<in>fst ` set ps. sublist k line \<longrightarrow> Effects_test_repeats e k line = Inl SystemExit"
      using Cons.prems(1) by simp
    have 2: "\<exists>k\<in>fst ` set ps. sublist k line"
      using Cons.prems(2) False p by auto
    have "get_sd_loop e ps line = Inl SystemExit"
      by (rule Cons.IH[OF 1 2])
    then show ?thesis
      using False by (simp add: p str_find_sublist)
  qed
qed

lemma test_repeats_two_keys:
  assumes "k1 \<in> fst ` set (sd_pairs e)" "sublist k1 line"
    and "k2 \<in> fst ` set (sd_pairs e)" "sublist k2 line" "k1 \<noteq> k2"
  shows "Effects_test_repeats e k line = Inl SystemExit"
proof (cases "k = k1")
  case True
  then have "k2 \<in> fst ` set (sd_pairs e) \<and> k2 \<noteq> k \<and> sublist k2 line"
    using assms by simp
  then show ?thesis unfolding test_repeats_exit by blast
next
  case False
  then have "k1 \<in> fst ` set (sd_pairs e) \<and> k1 \<noteq> k \<and> sublist k1 line"
    using assms by simp
  then show ?thesis unfolding test_repeats_exit by blast
qed

lemma get_sd_exit:
  assumes "k1 \<in> fst ` set (sd_pairs e)" "sublist k1 line"
    and "k2 \<in> fst ` set (sd_pairs e)" "sublist k2 line" "k1 \<noteq> k2"
  shows "Effects_get_sd e line = Inl SystemExit"
proof -
  have 1: "\<forall>k\<in>fst ` set (sd_pairs e). sublist k line \<longrightarrow> Effects_test_repeats e k line = Inl SystemExit"
    using test_repeats_two_keys[OF assms] by simp
  have 2: "\<exists>k\<in>fst ` set (sd_pairs e). sublist k line"
    using assms(1,2) by blast
  show ?thesis
    unfolding Effects_get_sd_def by (rule get_sd_loop_exit[OF 1 2])
qed

lemma get_sd_none:
  "\<forall>k\<in>fst ` set (sd_pairs e). \<not> sublist k line \<Longrightarrow> Effects_get_sd e line = Inr None"
  by (simp add: Effects_get_sd_def get_sd_loop_none)

lemma InpFile_vary_line_exit:
  "n < length (lines f) \<Longrightarrow> Effects_get_sd (effects f) (lines f ! n) = Inl e
   \<Longrightarrow> InpFile_vary_line n f = Inl e"
  by (simp add: InpFile_vary_line_def InpFile_varied_def)

lemma InpFile_vary_line_none:
  "n < length (lines f) \<Longrightarrow> Effects_get_sd (effects f) (lines f ! n) = Inr None
   \<Longrightarrow> InpFile_vary_line n f = Inr f"
  by (simp add: InpFile_vary_line_def InpFile_varied_def)

text \<open>
  C4. When two distinct keys of the effects table occur in a line, \<^verbatim>\<open>get_sd\<close> leaves
  through \<^verbatim>\<open>sys.exit()\<close> (after printing the overlap message), and so does
  \<^verbatim>\<open>InpFile.vary_line\<close>: nothing catches it, the run ends. When no key occurs in the line,
  \<^verbatim>\<open>get_sd\<close> returns \<^verbatim>\<open>None\<close> and \<^verbatim>\<open>vary_line\<close> returns with the file unchanged. Both hold
  for every order in which the dictionary is visited.
\<close>

theorem key_lookup_ambiguous_or_none:
  "(k1 \<in> fst ` set (sd_pairs (effects f)) \<and> k2 \<in> fst ` set (sd_pairs (effects f)) \<and> k1 \<noteq> k2
      \<and> sublist k1 (lines f ! n) \<and> sublist k2 (lines f ! n) \<and> n < length (lines f)
    \<longrightarrow> Effects_get_sd (effects f) (lines f ! n) = Inl SystemExit
        \<and> InpFile_vary_line n f = Inl SystemExit)
   \<and> ((\<forall>k\<in>fst ` set (sd_pairs (effects f)). \<not> sublist k (lines f ! n)) \<and> n < length (lines f)
    \<longrightarrow> Effects_get_sd (effects f) (lines f ! n) = Inr None
        \<and> InpFile_vary_line n f = Inr f)"
proof (intro conjI impI)
  assume a: "k1 \<in> fst ` set (sd_pairs (effects f)) \<and> k2 \<in> fst ` set (sd_pairs (effects f))
      \<and> k1 \<noteq> k2 \<and> sublist k1 (lines f ! n) \<and> sublist k2 (lines f ! n) \<and> n < length (lines f)"
  then show g: "Effects_get_sd (effects f) (lines f ! n) = Inl SystemExit"
    using get_sd_exit[of k1 "effects f" "lines f ! n" k2] by blast
  from a g show "InpFile_vary_line n f = Inl SystemExit"
    by (simp add: InpFile_vary_line_exit)
next
  assume b: "(\<forall>k\<in>fst ` set (sd_pairs (effects f)). \<not> sublist k (lines f ! n)) \<and> n < length (lines f)"
  then show g: "Effects_get_sd (effects f) (lines f ! n) = Inr None"
    using get_sd_none[of "effects f" "lines f ! n"] by blast
  from b g show "InpFile_vary_line n f = Inr f"
    by (simp add: InpFile_vary_line_none)
qed

theorem key_lookup_ambiguous_or_none_witness:
  "Effects_get_sd \<lparr>sd_pairs = [(''A'', Num 1), (''B'', Num 2)], eff_lines = [], eff_rnd = []\<rparr> ''1.0 A B''
     = Inl SystemExit
   \<and> InpFile_vary_line 0
       \<lparr>lines = [''1.0 A B'', ''zzz''], frmt_str = [],
        effects = \<lparr>sd_pairs = [(''A'', Num 1), (''B'', Num 2)], eff_lines = [], eff_rnd = []\<rparr>\<rparr>
     = Inl SystemExit
   \<and> Effects_get_sd \<lparr>sd_pairs = [(''A'', Num 1), (''B'', Num 2)], eff_lines = [], eff_rnd = []\<rparr> ''zzz''
     = Inr None
   \<and> InpFile_vary_line 1
       \<lparr>lines = [''1.0 A B'', ''zzz''], frmt_str = [],
        effects = \<lparr>sd_pairs = [(''A'', Num 1), (''B'', Num 2)], eff_lines = [], eff_rnd = []\<rparr>\<rparr>
     = Inr \<lparr>lines = [''1.0 A B'', ''zzz''], frmt_str = [],
            effects = \<lparr>sd_pairs = [(''A'', Num 1), (''B'', Num 2)], eff_lines = [], eff_rnd = []\<rparr>\<rparr>"
proof -
  let ?f = "\<lparr>lines = [''1.0 A B'', ''zzz''], frmt_str = [],
        effects = \<lparr>sd_pairs = [(''A'', Num 1), (''B'', Num 2)], eff_lines = [], eff_rnd = []\<rparr>\<rparr>"
  have a: "sublist ''A'' ''1.0 A B''" "sublist ''B'' ''1.0 A B''"
    by (simp_all add: sublist_Cons_right)
  have b: "\<not> sublist ''A'' ''zzz''" "\<not> sublist ''B'' ''zzz''"
    by (simp_all add: sublist_Cons_right)
  show ?thesis
    using key_lookup_ambiguous_or_none [where f = ?f and n = 0 and ?k1.0 = "''A''" and ?k2.0 = "''B''"]
      key_lookup_ambiguous_or_none [where f = ?f and n = 1 and ?k1.0 = "''A''" and ?k2.0 = "''B''"]
      a b
    by simp
qed

section \<open>Block numbers and the matrix of the standard-deviation file\<close>

lemma count_data_Cons:
  "count_data (l # ls) = (if data_line l then Suc (count_data ls) else count_data ls)"
  by (simp add: count_data_def)

lemma count_data_Nil: "count_data [] = 0"
  by (simp add: count_data_def)

lemma set_block_nums_loop_result:
  "\<exists>bn'. set_block_nums_loop (enumerate k ls) bn n = Inr (bn', n + int (count_data ls))
     \<and> length bn' = length bn
     \<and> (\<forall>j<k. bn' ! j = bn ! j)
     \<and> (\<forall>j<length ls. k + j < length bn \<longrightarrow>
           bn' ! (k + j) = (if data_line (ls ! j) then (n + int (count_data (take j ls))) div 6
                            else bn ! (k + j)))"
proof (induction ls arbitrary: k bn n)
  case Nil
  then show ?case by (simp add: count_data_Nil)
next
  case (Cons l ls)
  show ?case
  proof (cases "data_line l")
    case True
    obtain bn' where
      r: "set_block_nums_loop (enumerate (Suc k) ls) (bn[k := n div 6]) (n + 1)
            = Inr (bn', n + 1 + int (count_data ls))"
      and len: "length bn' = length (bn[k := n div 6])"
      and low: "\<forall>j<Suc k. bn' ! j = (bn[k := n div 6]) ! j"
      and high: "\<forall>j<length ls. Suc k + j < length (bn[k := n div 6]) \<longrightarrow>
           bn' ! (Suc k + j) = (if data_line (ls ! j) then (n + 1 + int (count_data (take j ls))) div 6
                            else (bn[k := n div 6]) ! (Suc k + j))"
      using Cons.IH[of "Suc k" "bn[k := n div 6]" "n + 1"] by blast
    have 1: "set_block_nums_loop (enumerate k (l # ls)) bn n
               = Inr (bn', n + int (count_data (l # ls)))"
      using r True by (simp add: is_data_line_split count_data_Cons algebra_simps)
    have 2: "length bn' = length bn" using len by simp
    have 3: "\<forall>j<k. bn' ! j = bn ! j" using low by simp
    have 4: "\<forall>j<length (l # ls). k + j < length bn \<longrightarrow>
           bn' ! (k + j) = (if data_line ((l # ls) ! j)
                            then (n + int (count_data (take j (l # ls)))) div 6
                            else bn ! (k + j))"
    proof (intro allI impI)
      fix j assume j: "j < length (l # ls)" and kj: "k + j < length bn"
      show "bn' ! (k + j) = (if data_line ((l # ls) ! j)
                            then (n + int (count_data (take j (l # ls)))) div 6
                            else bn ! (k + j))"
      proof (cases j)
        case 0
        then show ?thesis using low kj True by (simp add: count_data_Nil)
      next
        case (Suc j')
        then have "j' < length ls" "Suc k + j' < length (bn[k := n div 6])"
          using j kj by simp_all
        then have "bn' ! (Suc k + j') = (if data_line (ls ! j') then (n + 1 + int (count_data (take j' ls))) div 6
                            else (bn[k := n div 6]) ! (Suc k + j'))"
          using high by blast
        then show ?thesis using Suc True by (simp add: count_data_Cons algebra_simps)
      qed
    qed
    from 1 2 3 4 show ?thesis by blast
  next
    case False
    obtain bn' where
      r: "set_block_nums_loop (enumerate (Suc k) ls) bn n = Inr (bn', n + int (count_data ls))"
      and len: "length bn' = length bn"
      and low: "\<forall>j<Suc k. bn' ! j = bn ! j"
      and high: "\<forall>j<length ls. Suc k + j < length bn \<longrightarrow>
           bn' ! (Suc k + j) = (if data_line (ls ! j) then (n + int (count_data (take j ls))) div 6
                            else bn ! (Suc k + j))"
      using Cons.IH[of "Suc k" bn n] by blast
    have 1: "set_block_nums_loop (enumerate k (l # ls)) bn n
               = Inr (bn', n + int (count_data (l # ls)))"
      using r False by (simp add: is_data_line_split count_data_Cons)
    have 3: "\<forall>j<k. bn' ! j = bn ! j" using low by simp
    have 4: "\<forall>j<length (l # ls). k + j < length bn \<longrightarrow>
           bn' ! (k + j) = (if data_line ((l # ls) ! j)
                            then (n + int (count_data (take j (l # ls)))) div 6
                            else bn ! (k + j))"
    proof (intro allI impI)
      fix j assume j: "j < length (l # ls)" and kj: "k + j < length bn"
      show "bn' ! (k + j) = (if data_line ((l # ls) ! j)
                            then (n + int (count_data (take j (l # ls)))) div 6
                            else bn ! (k + j))"
      proof (cases j)
        case 0
        then show ?thesis using low False by simp
      next
        case (Suc j')
        then have "j' < length ls" "Suc k + j' < length bn"
          using j kj by simp_all
        then have "bn' ! (Suc k + j') = (if data_line (ls ! j') then (n + int (count_data (take j' ls))) div 6
                            else bn ! (Suc k + j'))"
          using high by blast
        then show ?thesis using Suc False by (simp add: count_data_Cons)
      qed
    qed
    from 1 len 3 4 show ?thesis by blast
  qed
qed

lemma count_cols_loop_result:
  "count_cols_loop ls = Inr (map_option (\<lambda>l. int (length (split_ws l)) - 1) (find data_line ls))"
  by (induction ls) (simp_all add: is_data_line_split)


lemma data_line_tokens: "data_line l \<Longrightarrow> split_ws l \<noteq> []"
  by (auto simp: data_line_def)

lemma find_data_line_None: "find data_line ls = None \<longleftrightarrow> count_data ls = 0"
  by (auto simp: count_data_def find_None_iff filter_empty_conv)

lemma set_block_nums_init:
  "\<exists>bn'. SDFile_set_block_nums
            \<lparr>sd_lines = ls, block_nums = replicate (length ls) (- 1), num_blocks = 0,
             cols = None, rnd = []\<rparr>
          = Inr \<lparr>sd_lines = ls, block_nums = bn', num_blocks = int (count_data ls) div 6,
                 cols = None, rnd = []\<rparr>
     \<and> length bn' = length ls
     \<and> (\<forall>j<length ls. bn' ! j = (if data_line (ls ! j) then int (count_data (take j ls)) div 6
                                  else - 1))"
proof -
  obtain bn' where
    r: "set_block_nums_loop (enumerate 0 ls) (replicate (length ls) (- 1)) 0
          = Inr (bn', 0 + int (count_data ls))"
    and len: "length bn' = length (replicate (length ls) (- 1 :: int))"
    and high: "\<forall>j<length ls. 0 + j < length (replicate (length ls) (- 1 :: int)) \<longrightarrow>
           bn' ! (0 + j) = (if data_line (ls ! j) then (0 + int (count_data (take j ls))) div 6
                            else (replicate (length ls) (- 1)) ! (0 + j))"
    using set_block_nums_loop_result[of 0 ls "replicate (length ls) (- 1)" 0] by blast
  have 1: "SDFile_set_block_nums
            \<lparr>sd_lines = ls, block_nums = replicate (length ls) (- 1), num_blocks = 0,
             cols = None, rnd = []\<rparr>
          = Inr \<lparr>sd_lines = ls, block_nums = bn', num_blocks = int (count_data ls) div 6,
                 cols = None, rnd = []\<rparr>"
    using r by (simp add: SDFile_set_block_nums_def)
  have 2: "length bn' = length ls" using len by simp
  have 3: "\<forall>j<length ls. bn' ! j = (if data_line (ls ! j) then int (count_data (take j ls)) div 6
                                  else - 1)"
    using high by simp
  from 1 2 3 show ?thesis by blast
qed

lemma SDFile_init_no_data:
  assumes "find data_line ls = None"
  shows "SDFile_init sample ls z = Inl TypeError"
proof -
  obtain bn' where
    1: "SDFile_set_block_nums
            \<lparr>sd_lines = ls, block_nums = replicate (length ls) (- 1), num_blocks = 0,
             cols = None, rnd = []\<rparr>
          = Inr \<lparr>sd_lines = ls, block_nums = bn', num_blocks = int (count_data ls) div 6,
                 cols = None, rnd = []\<rparr>"
    using set_block_nums_init[of ls] by blast
  show ?thesis
    using 1 assms
    by (simp add: SDFile_init_def SDFile_count_cols_def count_cols_loop_result Let_def
        SDFile_generate_rnd_def np_zeros_def np_randn_def np_dims_def)
qed

lemma SDFile_init_data:
  assumes "find data_line ls = Some l"
  shows "\<exists>s. SDFile_init sample ls z = Inr s
     \<and> sd_lines s = ls
     \<and> num_blocks s = int (count_data ls) div 6
     \<and> cols s = Some (int (length (split_ws l)) - 1)
     \<and> length (block_nums s) = length ls
     \<and> (\<forall>j<length ls. block_nums s ! j
           = (if data_line (ls ! j) then int (count_data (take j ls)) div 6 else - 1))
     \<and> rnd s = (if z then replicate (count_data ls div 6 div 2)
                            (replicate (length (split_ws l) - 1) (Num 0))
                else map (\<lambda>i. map (\<lambda>j. Num (sample i j)) [0..<length (split_ws l) - 1])
                       [0..<count_data ls div 6 div 2])"
proof -
  obtain bn' where
    1: "SDFile_set_block_nums
            \<lparr>sd_lines = ls, block_nums = replicate (length ls) (- 1), num_blocks = 0,
             cols = None, rnd = []\<rparr>
          = Inr \<lparr>sd_lines = ls, block_nums = bn', num_blocks = int (count_data ls) div 6,
                 cols = None, rnd = []\<rparr>"
    and 2: "length bn' = length ls"
    and 3: "\<forall>j<length ls. bn' ! j = (if data_line (ls ! j) then int (count_data (take j ls)) div 6
                                  else - 1)"
    using set_block_nums_init[of ls] by blast
  have "data_line l" using assms by (auto simp: find_Some_iff)
  then have tok: "split_ws l \<noteq> []" by (rule data_line_tokens)
  then have c: "\<not> int (length (split_ws l)) - 1 < 0" by (cases "split_ws l") simp_all
  have n1: "nat (int (length (split_ws l)) - 1) = length (split_ws l) - 1" by simp
  have r0: "\<not> int (count_data ls) div 6 div 2 < 0"
    by (simp add: pos_imp_zdiv_nonneg_iff)
  have n2: "nat (int (count_data ls) div 6 div 2) = count_data ls div 6 div 2"
    by (simp add: nat_div_distrib)
  let ?m = "(if z then replicate (count_data ls div 6 div 2)
                            (replicate (length (split_ws l) - 1) (Num 0))
                else map (\<lambda>i. map (\<lambda>j. Num (sample i j)) [0..<length (split_ws l) - 1])
                       [0..<count_data ls div 6 div 2])"
  have "SDFile_init sample ls z
          = Inr \<lparr>sd_lines = ls, block_nums = bn', num_blocks = int (count_data ls) div 6,
                 cols = Some (int (length (split_ws l)) - 1), rnd = ?m\<rparr>"
    using 1 assms c r0 n1 n2
    by (simp add: SDFile_init_def SDFile_count_cols_def count_cols_loop_result Let_def
        SDFile_generate_rnd_def np_zeros_def np_randn_def np_dims_def)
  with 2 3 show ?thesis by simp
qed

text \<open>
  C6. When the standard-deviation file has no data line, \<^verbatim>\<open>_count_cols\<close> returns \<^verbatim>\<open>None\<close>
  and the construction of the matrix raises (numpy's \<^verbatim>\<open>TypeError\<close> for the \<^verbatim>\<open>None\<close>
  dimension), in both modes. When it has one, the construction succeeds and \<^verbatim>\<open>cols\<close> is
  the number of tokens of the first data line minus one. \<open>find data_line ls\<close> is the first
  data line of the file.
\<close>
theorem empty_table_fails_and_column_count:
  "(find data_line ls = None \<longrightarrow> SDFile_init sample ls zero_run = Inl TypeError)
   \<and> (find data_line ls = Some l \<longrightarrow>
        (\<exists>s. SDFile_init sample ls zero_run = Inr s
              \<and> cols s = Some (int (length (split_ws l)) - 1)))"
  using SDFile_init_no_data[of ls sample zero_run] SDFile_init_data[of ls l sample zero_run]
  by blast

theorem empty_table_fails_and_column_count_witness:
  "SDFile_init (\<lambda>i j. 1) [''# sd'', ''x 0.5''] False = Inl TypeError
   \<and> (\<exists>s. SDFile_init (\<lambda>i j. 1) [''# sd'', ''1 0.5 0.25'', ''2 0.5''] True = Inr s
            \<and> cols s = Some 2)"
proof -
  have a: "find data_line [''# sd'', ''x 0.5''] = None"
    by (simp add: data_line_def split_ws_def isspace_def isdigit_def)
  have b: "find data_line [''# sd'', ''1 0.5 0.25'', ''2 0.5''] = Some ''1 0.5 0.25''"
    by (simp add: data_line_def split_ws_def isspace_def isdigit_def)
  have c: "int (length (split_ws ''1 0.5 0.25'')) - 1 = 2"
    by (simp add: split_ws_def isspace_def)
  show ?thesis
    using empty_table_fails_and_column_count
        [of "[''# sd'', ''x 0.5'']" "\<lambda>i j. 1" False "''1 0.5 0.25''"]
      empty_table_fails_and_column_count
        [of "[''# sd'', ''1 0.5 0.25'', ''2 0.5'']" "\<lambda>i j. 1" True "''1 0.5 0.25''"]
      a b c
    by simp
qed

section \<open>Row selection\<close>

lemma count_data_append: "count_data (xs @ ys) = count_data xs + count_data ys"
  by (simp add: count_data_def)

lemma count_data_take_less:
  assumes "n < length ls" "data_line (ls ! n)"
  shows "count_data (take n ls) < count_data ls"
proof -
  have "ls = take n ls @ ls ! n # drop (Suc n) ls"
    using assms(1) by (rule id_take_nth_drop)
  then have "count_data ls = count_data (take n ls) + count_data (ls ! n # drop (Suc n) ls)"
    by (metis count_data_append)
  then show ?thesis using assms(2) by (simp add: count_data_Cons)
qed

lemma SDFile_init_Inr_find:
  assumes "SDFile_init sample ls z = Inr s"
  shows "\<exists>l. find data_line ls = Some l"
proof (cases "find data_line ls")
  case None
  then show ?thesis using assms SDFile_init_no_data[of ls sample z] by simp
next
  case (Some l)
  then show ?thesis by simp
qed

lemma SDFile_init_block_nums:
  assumes "SDFile_init sample ls z = Inr s" "n < length ls"
  shows "sd_lines s = ls \<and> length (block_nums s) = length ls
     \<and> block_nums s ! n = (if data_line (ls ! n) then int (count_data (take n ls)) div 6 else - 1)"
proof -
  obtain l where "find data_line ls = Some l"
    using SDFile_init_Inr_find[OF assms(1)] by blast
  then show ?thesis
    using SDFile_init_data[of ls l sample z] assms by auto
qed

lemma SDFile_get_block_num_init:
  assumes "SDFile_init sample ls z = Inr s" "n < length ls"
  shows "SDFile_get_block_num s n
     = Inr (if data_line (ls ! n) then int (count_data (take n ls)) div 6 else - 1)"
  using SDFile_init_block_nums[OF assms] assms(2) by (simp add: SDFile_get_block_num_def)

lemma SDFile_row_init:
  assumes "SDFile_init sample ls z = Inr s" "n < length ls"
  shows "SDFile_row s n
     = Inr (if data_line (ls ! n) then count_data (take n ls) div 6 mod 2 else 1)"
proof -
  have "nat (int (count_data (take n ls)) div 6 mod 2) = count_data (take n ls) div 6 mod 2"
    by (simp add: nat_div_distrib nat_mod_distrib)
  then show ?thesis
    using SDFile_get_block_num_init[OF assms] by (simp add: SDFile_row_def)
qed

subsection \<open>Example files\<close>

lemma count_data_replicate: "count_data (replicate k l) = (if data_line l then k else 0)"
  by (induction k) (simp_all add: count_data_Nil count_data_Cons)

lemma find_replicate: "0 < k \<Longrightarrow> P x \<Longrightarrow> find P (replicate k x) = Some x"
  by (cases k) simp_all

lemma data_line_ex1: "data_line ''1 0.5''"
  by (simp add: data_line_def split_ws_def isspace_def isdigit_def)

lemma split_ex1: "split_ws ''1 0.5'' = [''1'', ''0.5'']"
  by (simp add: split_ws_def isspace_def)

lemma float_ex1: "py_float ''0.5'' = Inr (Num (1 / 2))"
  by (simp add: py_float_def py_strip_def isspace_def lower_def parse_decimal_def isdigit_def
      parse_exponent_def int_of_digits_def digit_val_def double_overflow_def)





lemma data_line_ex3: "data_line ''1 5.0''"
  by (simp add: data_line_def split_ws_def isspace_def isdigit_def)




subsection \<open>Twelve data lines\<close>

text \<open>
  C1. For a standard-deviation file of twelve data lines the block count is 2 and the
  matrix has one row. \<^verbatim>\<open>sd_list\<close> indexes the matrix with \<^verbatim>\<open>block_num%2\<close>, which is 1 for
  a data line of block 1: in the file of twelve lines \<^verbatim>\<open>1 0.5\<close>, line 6 selects row
  index 1, which the one-row matrix does not have, so \<^verbatim>\<open>sd_list\<close> and \<^verbatim>\<open>vary_line\<close> raise
  \<^verbatim>\<open>IndexError\<close> where the claim has the line read row 0.
\<close>

theorem twelve_data_lines_block_one_raises:
  "count_data (replicate 12 ''1 0.5'') = 12
   \<and> (case SDFile_init (\<lambda>i j. 1) (replicate 12 ''1 0.5'') False of
        Inl e \<Rightarrow> False
      | Inr s \<Rightarrow> num_blocks s = 2 \<and> length (rnd s) = 1 \<and> data_line (sd_lines s ! 6)
                 \<and> SDFile_row s 6 = Inr 1 \<and> SDFile_sd_list s 6 = Inl IndexError
                 \<and> DatFile_vary_line 6
                      \<lparr>lines = replicate 12 ''1 5.0'', frmt_str = [], sdfile = s\<rparr>
                    = Inl IndexError)"
proof -
  let ?ls = "replicate 12 ''1 0.5''"
  have f: "find data_line ?ls = Some ''1 0.5''"
    by (simp add: data_line_ex1 find_replicate)
  obtain s where s: "SDFile_init (\<lambda>i j. 1) ?ls False = Inr s"
    and sl: "sd_lines s = ?ls"
    and nb: "num_blocks s = int (count_data ?ls) div 6"
    and r: "rnd s = (if False then replicate (count_data ?ls div 6 div 2)
                            (replicate (length (split_ws ''1 0.5'') - 1) (Num 0))
                else map (\<lambda>i. map (\<lambda>j. Num 1) [0..<length (split_ws ''1 0.5'') - 1])
                       [0..<count_data ?ls div 6 div 2])"
    using SDFile_init_data[OF f, of "\<lambda>i j. 1" False] by blast
  have c: "count_data ?ls = 12" by (simp add: count_data_replicate data_line_ex1)
  have 1: "num_blocks s = 2" using nb c by simp
  have r': "rnd s = [[Num 1]]" using r c by (simp add: split_ex1)
  have 3: "data_line (sd_lines s ! 6)" using sl by (simp add: data_line_ex1)
  have 4: "SDFile_row s 6 = Inr 1"
    using SDFile_row_init[OF s, of 6] by (simp add: data_line_ex1 count_data_replicate)
  have 5: "SDFile_sd_list s 6 = Inl IndexError"
    using 4 sl r' by (simp add: SDFile_sd_list_def split_ex1 float_ex1 np_get_def)
  have 6: "DatFile_vary_line 6 \<lparr>lines = replicate 12 ''1 5.0'', frmt_str = [], sdfile = s\<rparr>
             = Inl IndexError"
    using 5 by (simp add: DatFile_vary_line_def DatFile_varied_def is_data_line_split
        data_line_ex3)
  show ?thesis using s c 1 r' 3 4 5 6 by simp
qed

subsection \<open>Whose block numbers\<close>






section \<open>Lines that pass through\<close>

lemma format_line_result:
  "VFile_format_line v n f = Inr f' \<Longrightarrow> \<exists>s. f' = f\<lparr>lines := (lines f)[n := s]\<rparr>"
  by (auto simp: VFile_format_line_def split: sum.splits if_splits)

lemma DatFile_vary_line_result:
  assumes "DatFile_vary_line n f = Inr f'"
  shows "f' = f \<or> (\<exists>s. f' = f\<lparr>lines := (lines f)[n := s]\<rparr>)"
proof (cases "DatFile_varied f n")
  case (Inl e)
  then show ?thesis using assms by (simp add: DatFile_vary_line_def)
next
  case (Inr v)
  show ?thesis
  proof (cases v)
    case None
    then show ?thesis using assms Inr by (simp add: DatFile_vary_line_def)
  next
    case (Some varied)
    then have "VFile_format_line varied n f = Inr f'"
      using assms Inr by (simp add: DatFile_vary_line_def)
    then show ?thesis using format_line_result by blast
  qed
qed

lemma DatFile_vary_line_frame:
  assumes "DatFile_vary_line n f = Inr f'"
  shows "length (lines f') = length (lines f) \<and> sdfile f' = sdfile f
     \<and> (\<forall>m. m \<noteq> n \<longrightarrow> lines f' ! m = lines f ! m)"
  using DatFile_vary_line_result[OF assms] by auto

lemma vary_loop_DatFile:
  assumes "vary_loop DatFile_vary_line ns f = Inr f'" "distinct ns"
    and "\<forall>n\<in>set ns. n < length (lines f)"
  shows "length (lines f') = length (lines f)
     \<and> (\<forall>m<length (lines f). \<not> data_line (lines f ! m) \<longrightarrow> lines f' ! m = lines f ! m)
     \<and> (\<forall>m. m \<notin> set ns \<longrightarrow> lines f' ! m = lines f ! m)"
  using assms
proof (induction ns arbitrary: f)
  case Nil
  then show ?case by simp
next
  case (Cons n ns)
  obtain f1 where f1: "DatFile_vary_line n f = Inr f1"
    and rest: "vary_loop DatFile_vary_line ns f1 = Inr f'"
    using Cons.prems(1) by (auto split: sum.splits)
  have fr: "length (lines f1) = length (lines f)" "\<forall>m. m \<noteq> n \<longrightarrow> lines f1 ! m = lines f ! m"
    using DatFile_vary_line_frame[OF f1] by simp_all
  have d: "distinct ns" "n \<notin> set ns" using Cons.prems(2) by simp_all
  have b: "\<forall>k\<in>set ns. k < length (lines f1)" using Cons.prems(3) fr by simp
  have ih: "length (lines f') = length (lines f1)"
    "\<forall>m<length (lines f1). \<not> data_line (lines f1 ! m) \<longrightarrow> lines f' ! m = lines f1 ! m"
    "\<forall>m. m \<notin> set ns \<longrightarrow> lines f' ! m = lines f1 ! m"
    using Cons.IH[OF rest d(1) b] by simp_all
  have 1: "length (lines f') = length (lines f)" using ih(1) fr(1) by simp
  have 2: "\<forall>m<length (lines f). \<not> data_line (lines f ! m) \<longrightarrow> lines f' ! m = lines f ! m"
  proof (intro allI impI)
    fix m assume m: "m < length (lines f)" and nd: "\<not> data_line (lines f ! m)"
    show "lines f' ! m = lines f ! m"
    proof (cases "m = n")
      case True
      then have "f1 = f"
        using f1 DatFile_vary_line_non_data[of n f] m nd by simp
      moreover have "lines f' ! n = lines f1 ! n" using ih(3) d(2) by simp
      ultimately show ?thesis using True by simp
    next
      case False
      then have "lines f1 ! m = lines f ! m" using fr(2) by simp
      then show ?thesis using ih(2) m nd fr(1) by simp
    qed
  qed
  have 3: "\<forall>m. m \<notin> set (n # ns) \<longrightarrow> lines f' ! m = lines f ! m"
    using ih(3) fr(2) by simp
  from 1 2 3 show ?case by blast
qed

lemma DatFile_vary_passthrough:
  assumes "DatFile_vary f = Inr f'" "n < length (lines f)" "\<not> data_line (lines f ! n)"
  shows "length (lines f') = length (lines f) \<and> lines f' ! n = lines f ! n"
proof -
  have "vary_loop DatFile_vary_line [0..<length (lines f)] f = Inr f'"
    using assms(1) by (simp add: DatFile_vary_def VFile_vary_def VFile_num_lines_def)
  then show ?thesis
    using vary_loop_DatFile[of "[0..<length (lines f)]" f f'] assms(2,3) by simp
qed


lemma InpFile_vary_line_result:
  assumes "InpFile_vary_line n f = Inr f'"
  shows "f' = f \<or> (\<exists>s. f' = f\<lparr>lines := (lines f)[n := s]\<rparr>)"
proof (cases "InpFile_varied f n")
  case (Inl e)
  then show ?thesis using assms by (simp add: InpFile_vary_line_def)
next
  case (Inr v)
  show ?thesis
  proof (cases v)
    case None
    then show ?thesis using assms Inr by (simp add: InpFile_vary_line_def)
  next
    case (Some varied)
    then have "VFile_format_line [varied] n f = Inr f'"
      using assms Inr by (simp add: InpFile_vary_line_def)
    then show ?thesis using format_line_result by blast
  qed
qed

lemma InpFile_vary_line_frame:
  assumes "InpFile_vary_line n f = Inr f'"
  shows "length (lines f') = length (lines f) \<and> effects f' = effects f
     \<and> (\<forall>m. m \<noteq> n \<longrightarrow> lines f' ! m = lines f ! m)"
  using InpFile_vary_line_result[OF assms] by auto

lemma InpFile_vary_line_no_key:
  assumes "n < length (lines f)"
    and "\<forall>k\<in>fst ` set (sd_pairs (effects f)). \<not> sublist k (lines f ! n)"
  shows "InpFile_vary_line n f = Inr f"
  using assms get_sd_none[of "effects f" "lines f ! n"]
  by (simp add: InpFile_vary_line_none)

lemma vary_loop_InpFile:
  assumes "vary_loop InpFile_vary_line ns f = Inr f'" "distinct ns"
    and "\<forall>n\<in>set ns. n < length (lines f)"
  shows "length (lines f') = length (lines f) \<and> effects f' = effects f
     \<and> (\<forall>m<length (lines f). (\<forall>k\<in>fst ` set (sd_pairs (effects f)). \<not> sublist k (lines f ! m))
            \<longrightarrow> lines f' ! m = lines f ! m)
     \<and> (\<forall>m. m \<notin> set ns \<longrightarrow> lines f' ! m = lines f ! m)"
  using assms
proof (induction ns arbitrary: f)
  case Nil
  then show ?case by simp
next
  case (Cons n ns)
  obtain f1 where f1: "InpFile_vary_line n f = Inr f1"
    and rest: "vary_loop InpFile_vary_line ns f1 = Inr f'"
    using Cons.prems(1) by (auto split: sum.splits)
  have fr: "length (lines f1) = length (lines f)" "effects f1 = effects f"
    "\<forall>m. m \<noteq> n \<longrightarrow> lines f1 ! m = lines f ! m"
    using InpFile_vary_line_frame[OF f1] by simp_all
  have d: "distinct ns" "n \<notin> set ns" using Cons.prems(2) by simp_all
  have b: "\<forall>k\<in>set ns. k < length (lines f1)" using Cons.prems(3) fr by simp
  have ih: "length (lines f') = length (lines f1)" "effects f' = effects f1"
    "\<forall>m<length (lines f1). (\<forall>k\<in>fst ` set (sd_pairs (effects f1)). \<not> sublist k (lines f1 ! m))
            \<longrightarrow> lines f' ! m = lines f1 ! m"
    "\<forall>m. m \<notin> set ns \<longrightarrow> lines f' ! m = lines f1 ! m"
    using Cons.IH[OF rest d(1) b] by simp_all
  have 1: "length (lines f') = length (lines f)" using ih(1) fr(1) by simp
  have eff: "effects f' = effects f" using ih(2) fr(2) by simp
  have 2: "\<forall>m<length (lines f). (\<forall>k\<in>fst ` set (sd_pairs (effects f)). \<not> sublist k (lines f ! m))
            \<longrightarrow> lines f' ! m = lines f ! m"
  proof (intro allI impI)
    fix m assume m: "m < length (lines f)"
      and nk: "\<forall>k\<in>fst ` set (sd_pairs (effects f)). \<not> sublist k (lines f ! m)"
    show "lines f' ! m = lines f ! m"
    proof (cases "m = n")
      case True
      then have "f1 = f"
        using f1 InpFile_vary_line_no_key[of n f] m nk by simp
      moreover have "lines f' ! n = lines f1 ! n" using ih(4) d(2) by simp
      ultimately show ?thesis using True by simp
    next
      case False
      then have e: "lines f1 ! m = lines f ! m" using fr(3) by simp
      have "m < length (lines f1)" using m fr(1) by simp
      moreover have "\<forall>k\<in>fst ` set (sd_pairs (effects f1)). \<not> sublist k (lines f1 ! m)"
        using nk fr(2) e by simp
      ultimately have "lines f' ! m = lines f1 ! m" using ih(3) by blast
      then show ?thesis using e by simp
    qed
  qed
  have 3: "\<forall>m. m \<notin> set (n # ns) \<longrightarrow> lines f' ! m = lines f ! m"
    using ih(4) fr(3) by simp
  from 1 eff 2 3 show ?case by blast
qed

lemma InpFile_vary_passthrough:
  assumes "InpFile_vary f = Inr f'" "n < length (lines f)"
    and "\<forall>k\<in>fst ` set (sd_pairs (effects f)). \<not> sublist k (lines f ! n)"
  shows "length (lines f') = length (lines f) \<and> lines f' ! n = lines f ! n"
proof -
  have "vary_loop InpFile_vary_line [0..<length (lines f)] f = Inr f'"
    using assms(1) by (simp add: InpFile_vary_def VFile_vary_def VFile_num_lines_def)
  then show ?thesis
    using vary_loop_InpFile[of "[0..<length (lines f)]" f f'] assms(2,3) by simp
qed

text \<open>
  C7, as the code has it. In the table pipeline a line whose first token does not start
  with a decimal digit (or that has no token) is, after \<^verbatim>\<open>vary()\<close>, the line it was, and
  the file has as many lines as before; this holds for every standard-deviation object,
  so in both modes. The scalar pipeline does not look at the first token: there a line is
  the line it was whenever no key of the effects table occurs in it.
\<close>
theorem unchanged_lines_of_both_pipelines:
  "(DatFile_vary f = Inr f' \<and> n < length (lines f) \<and> \<not> data_line (lines f ! n)
      \<longrightarrow> length (lines f') = length (lines f) \<and> lines f' ! n = lines f ! n)
   \<and> (InpFile_vary g = Inr g' \<and> n < length (lines g)
        \<and> (\<forall>k\<in>fst ` set (sd_pairs (effects g)). \<not> sublist k (lines g ! n))
      \<longrightarrow> length (lines g') = length (lines g) \<and> lines g' ! n = lines g ! n)"
  using DatFile_vary_passthrough[of f f' n] InpFile_vary_passthrough[of g g' n]
  by blast

theorem unchanged_lines_of_both_pipelines_witness:
  "DatFile_vary \<lparr>lines = [''# c''], frmt_str = [],
        sdfile = \<lparr>sd_lines = [], block_nums = [], num_blocks = 0, cols = None, rnd = []\<rparr>\<rparr>
     = Inr \<lparr>lines = [''# c''], frmt_str = [],
        sdfile = \<lparr>sd_lines = [], block_nums = [], num_blocks = 0, cols = None, rnd = []\<rparr>\<rparr>
   \<and> \<not> data_line ''# c''
   \<and> InpFile_vary \<lparr>lines = [''abc''], frmt_str = [],
        effects = \<lparr>sd_pairs = [(''COST'', Num 0)], eff_lines = [], eff_rnd = []\<rparr>\<rparr>
     = Inr \<lparr>lines = [''abc''], frmt_str = [],
        effects = \<lparr>sd_pairs = [(''COST'', Num 0)], eff_lines = [], eff_rnd = []\<rparr>\<rparr>
   \<and> \<not> sublist ''COST'' ''abc''"
proof -
  let ?f = "\<lparr>lines = [''# c''], frmt_str = [],
        sdfile = \<lparr>sd_lines = [], block_nums = [], num_blocks = 0, cols = None, rnd = []\<rparr>\<rparr>"
  let ?g = "\<lparr>lines = [''abc''], frmt_str = [],
        effects = \<lparr>sd_pairs = [(''COST'', Num 0)], eff_lines = [], eff_rnd = []\<rparr>\<rparr>"
  have d: "\<not> data_line ''# c''"
    by (simp add: data_line_def split_ws_def isspace_def isdigit_def)
  have k: "\<not> sublist ''COST'' ''abc''"
    by (simp add: sublist_Cons_right)
  have vf: "DatFile_vary ?f = Inr ?f"
    using d DatFile_vary_line_non_data[of 0 ?f]
    by (simp add: DatFile_vary_def VFile_vary_def VFile_num_lines_def)
  have vg: "InpFile_vary ?g = Inr ?g"
    using k InpFile_vary_line_no_key[of 0 ?g]
    by (simp add: InpFile_vary_def VFile_vary_def VFile_num_lines_def)
  have "length (lines ?f) = length (lines ?f) \<and> lines ?f ! 0 = lines ?f ! 0
      \<and> length (lines ?g) = length (lines ?g) \<and> lines ?g ! 0 = lines ?g ! 0"
    using unchanged_lines_of_both_pipelines[of ?f ?f 0 ?g ?g] vf vg d k by simp
  then show ?thesis using vf vg d k by simp
qed

subsection \<open>A scalar line without a leading digit\<close>

lemma replicate_num: "replicate (numeral k) x = x # replicate (pred_numeral k) x"
  by (simp add: numeral_eq_Suc)
lemma rhe_2000000: "round_half_even 2000000 = 2000000"
  by (simp add: round_half_even_def)
lemma digits10_2: "digits10 2 = ''2''"
  by (simp add: digits10.simps digit_char_def)
lemma digits10_0: "digits10 0 = ''0''"
  by (simp add: digits10.simps digit_char_def)
lemma fmt_fixed_ex5: "fmt_fixed 6 (- 2) = ''-2.000000''"
  by (simp add: fmt_fixed_def Let_def rhe_2000000 digits10_2 digits10_0 replicate_num)
lemma fmt_ex5: "py_format (CHR 0x7B # '':<8.6f'' @ [CHR 0x7D]) [Num (- 2)] = Inr ''-2.000000''"
  by (simp add: py_format_def render_field_def parse_num_format_def isdigit_def Let_def
      int_of_digits_def digit_val_def ljust_def fmt_f_def fmt_fixed_ex5)
lemma float_ex5: "py_float ''-2.0'' = Inr (Num (- 2))"
  by (simp add: py_float_def py_strip_def isspace_def lower_def parse_decimal_def isdigit_def
      parse_exponent_def int_of_digits_def digit_val_def double_overflow_def fl_neg_def)

text \<open>
  The claim C7 has every line whose first token does not start with a digit pass through
  both pipelines. The scalar line \<^verbatim>\<open>-2.0 COST\<close> starts with a minus sign and holds the key
  \<^verbatim>\<open>COST\<close>; in deterministic mode the run writes \<^verbatim>\<open>-2.000000\<close> in its place.
\<close>

theorem scalar_line_rewritten_counterexample:
  "\<not> data_line ''-2.0 COST''
   \<and> main_inp (\<lambda>i. 1) True [''-2.0 COST''] [''key,sd'', ''COST,0.5'']
       = Inr (''-2.000000'' @ [CHR 0x0A])"
proof -
  have 1: "\<not> data_line ''-2.0 COST''"
    by (simp add: data_line_def split_ws_def isspace_def isdigit_def)
  have e: "Effects_init (\<lambda>i. 1) [''key,sd'', ''COST,0.5''] True
     = Inr \<lparr>sd_pairs = [(''COST'', Num 0)], eff_lines = [''key,sd'', ''COST,0.5''],
             eff_rnd = [Num 0]\<rparr>"
    by (simp add: Effects_init_def Effects_generate_rnd_def Effects_generate_pairs_def
        split_comma_def float_ex1)
  have s: "split_ws ''-2.0 COST'' = [''-2.0'', ''COST'']"
    by (simp add: split_ws_def isspace_def)
  have k: "sublist ''COST'' ''-2.0 COST''"
    by (simp add: sublist_Cons_right)
  have g: "Effects_get_sd \<lparr>sd_pairs = [(''COST'', Num 0)], eff_lines = [''key,sd'', ''COST,0.5''],
             eff_rnd = [Num 0]\<rparr> ''-2.0 COST'' = Inr (Some (Num 0))"
    using k by (simp add: Effects_get_sd_def str_find_sublist Effects_test_repeats_def)
  have v: "InpFile_vary \<lparr>lines = [''-2.0 COST''], frmt_str = CHR 0x7B # '':<8.6f'' @ [CHR 0x7D],
              effects = \<lparr>sd_pairs = [(''COST'', Num 0)], eff_lines = [''key,sd'', ''COST,0.5''],
             eff_rnd = [Num 0]\<rparr>\<rparr>
           = Inr \<lparr>lines = [''-2.000000''], frmt_str = CHR 0x7B # '':<8.6f'' @ [CHR 0x7D],
              effects = \<lparr>sd_pairs = [(''COST'', Num 0)], eff_lines = [''key,sd'', ''COST,0.5''],
             eff_rnd = [Num 0]\<rparr>\<rparr>"
    using g
    by (simp add: InpFile_vary_def VFile_vary_def
        VFile_num_lines_def InpFile_vary_line_def InpFile_varied_def s float_ex5
        VFile_format_line_def fmt_ex5[simplified])
  show ?thesis
    using 1 e v by (simp add: main_inp_def InpFile_init_def VFile_print_mc_def)
qed

section \<open>The format descriptor\<close>

subsection \<open>What the regular expressions find\<close>

lemma count_digit_then_nondigit:
  "\<not> isdigit a \<Longrightarrow> count_digit_then c (a # s) = count_digit_then c s"
  by (cases s) simp_all

lemma count_digit_then_digit_digit:
  "\<not> isdigit c \<Longrightarrow> s \<noteq> [] \<Longrightarrow> hd s \<noteq> c \<Longrightarrow> count_digit_then c (a # s) = count_digit_then c s"
  by (cases s) simp_all

lemma count_digit_then_run:
  assumes "\<not> isdigit c" "run \<noteq> []" "\<forall>x\<in>set run. isdigit x"
  shows "count_digit_then c (run @ c # rest) = Suc (count_digit_then c rest)"
  using assms(2,3)
proof (induction run)
  case Nil
  then show ?case by simp
next
  case (Cons a run)
  show ?case
  proof (cases run)
    case Nil
    then show ?thesis
      using Cons.prems assms(1) by (simp add: count_digit_then_nondigit)
  next
    case (Cons a' run')
    then have "a' \<noteq> c" using Cons.prems assms(1) by auto
    moreover have "count_digit_then c (run @ c # rest) = Suc (count_digit_then c rest)"
      using Cons.IH Cons.prems Cons by simp
    ultimately show ?thesis using Cons by simp
  qed
qed

lemma findall_digits_then_count:
  "\<not> isdigit c \<Longrightarrow> length (findall_digits_then c s) = count_digit_then c s"
proof (induction c s rule: findall_digits_then.induct)
  case (1 c)
  then show ?case by simp
next
  case (2 c a s)
  show ?case
  proof (cases "isdigit a")
    case False
    then show ?thesis using 2 by (simp add: count_digit_then_nondigit)
  next
    case True
    show ?thesis
    proof (cases "dropWhile isdigit (a # s)")
      case Nil
      then have all: "\<forall>x\<in>set (a # s). isdigit x"
        by (metis dropWhile_eq_Nil_conv)
      have "count_digit_then c (a # s) = count_digit_then c s"
      proof (cases s)
        case Nil
        then show ?thesis by simp
      next
        case (Cons b s')
        then have "b \<noteq> c" using all "2.prems" by auto
        then show ?thesis using Cons by simp
      qed
      moreover have "length (findall_digits_then c s) = count_digit_then c s"
        using "2.IH"(1)[OF True Nil "2.prems"] .
      moreover have "findall_digits_then c (a # s) = findall_digits_then c s"
        by (simp only: findall_digits_then.simps True Nil if_True list.case)
      ultimately show ?thesis by simp
    next
      case (Cons b rest)
      have split: "a # s = takeWhile isdigit (a # s) @ b # rest"
        using Cons by (metis takeWhile_dropWhile_id)
      have run: "takeWhile isdigit (a # s) \<noteq> []" "\<forall>x\<in>set (takeWhile isdigit (a # s)). isdigit x"
        using True by (auto dest: set_takeWhileD)
      show ?thesis
      proof (cases "b = c")
        case True
        have "length (findall_digits_then c rest) = count_digit_then c rest"
          using "2.IH"(2)[OF \<open>isdigit a\<close> Cons True "2.prems"] .
        moreover have "count_digit_then c (a # s) = Suc (count_digit_then c rest)"
          using count_digit_then_run[OF "2.prems" run, of rest] split True by simp
        moreover have "findall_digits_then c (a # s)
            = takeWhile isdigit (a # s) # findall_digits_then c rest"
          by (simp only: findall_digits_then.simps \<open>isdigit a\<close> Cons True if_True list.case simp_thms)
        ultimately show ?thesis by simp
      next
        case False
        have ih: "length (findall_digits_then c s) = count_digit_then c s"
          using "2.IH"(3)[OF \<open>isdigit a\<close> Cons False "2.prems"] .
        have "\<not> isdigit b"
          using Cons by (metis hd_dropWhile list.sel(1) list.distinct(1))
        have "s \<noteq> [] \<and> hd s \<noteq> c"
        proof (cases s)
          case Nil
          then show ?thesis using Cons True by simp
        next
          case (Cons b' s')
          show ?thesis
          proof (cases "isdigit b'")
            case True
            then show ?thesis using Cons "2.prems" by auto
          next
            case False
            then have "dropWhile isdigit (a # s) = b' # s'"
              using \<open>isdigit a\<close> Cons by simp
            then have "b' = b" using \<open>dropWhile isdigit (a # s) = b # rest\<close> by simp
            then show ?thesis using Cons \<open>b \<noteq> c\<close> by simp
          qed
        qed
        then have "count_digit_then c (a # s) = count_digit_then c s"
          using count_digit_then_digit_digit[OF "2.prems"] by blast
        moreover have "findall_digits_then c (a # s) = findall_digits_then c s"
          by (simp only: findall_digits_then.simps \<open>isdigit a\<close> Cons False if_True if_False list.case)
        ultimately show ?thesis using ih by simp
      qed
    qed
  qed
qed

lemma findall_f_nonempty: "findall_f s \<noteq> [] \<longleftrightarrow> has_field_spec s"
proof (induction s rule: findall_f.induct)
  case 1
  then show ?case by simp
next
  case (2 a s)
  show ?case
  proof (cases "a = CHR ''f'' \<and> takeWhile isspecchar s \<noteq> []")
    case True
    then obtain b s' where s: "s = b # s'" "isspecchar b"
      by (cases s) (auto split: if_splits)
    then show ?thesis using True by simp
  next
    case False
    have ih: "findall_f s \<noteq> [] \<longleftrightarrow> has_field_spec s"
      using "2.IH"(2)[OF False] .
    have "has_field_spec (a # s) = has_field_spec s"
    proof (cases s)
      case Nil
      then show ?thesis by simp
    next
      case (Cons b s')
      then have "\<not> (a = CHR ''f'' \<and> isspecchar b)" using False by auto
      then show ?thesis using Cons by auto
    qed
    moreover have "findall_f (a # s) = findall_f s"
      using False by (simp only: findall_f.simps if_False)
    ultimately show ?thesis using ih by simp
  qed
qed

lemma not_digit_x: "\<not> isdigit CHR ''x''" and not_digit_paren: "\<not> isdigit CHR 0x28"
  by (simp_all add: isdigit_def)

lemma length_two: "length xs = 2 \<Longrightarrow> xs = [xs ! 0, xs ! 1]"
  by (cases xs; cases "tl xs") auto

lemma search_cols_count:
  "search_cols d = (if count_digit_then CHR 0x28 d = 0 then None
                    else Some (hd (findall_digits_then CHR 0x28 d)))"
proof -
  have "length (findall_digits_then CHR 0x28 d) = count_digit_then CHR 0x28 d"
    by (rule findall_digits_then_count[OF not_digit_paren])
  then show ?thesis
    by (cases "findall_digits_then CHR 0x28 d") (auto simp: search_cols_def)
qed

lemma parse_format_pads:
  "count_digit_then CHR ''x'' d \<noteq> 2 \<Longrightarrow> DatFile_parse_format d = Inl ValueError"
proof -
  assume a: "count_digit_then CHR ''x'' d \<noteq> 2"
  have l: "length (map int_of_digits (findall_digits_then CHR ''x'' d)) \<noteq> 2"
    using a findall_digits_then_count[OF not_digit_x, of d] by simp
  show ?thesis
  proof (cases "map int_of_digits (findall_digits_then CHR ''x'' d)")
    case Nil
    then show ?thesis by (simp add: DatFile_parse_format_def)
  next
    case (Cons p ps)
    note c1 = Cons
    show ?thesis
    proof (cases ps)
      case Nil
      then show ?thesis using c1 by (simp add: DatFile_parse_format_def)
    next
      case (Cons q qs)
      then have "qs \<noteq> []" using l c1 by auto
      then obtain r rs where "qs = r # rs" by (cases qs) auto
      then show ?thesis using c1 Cons by (simp add: DatFile_parse_format_def)
    qed
  qed
qed

lemma parse_format_two_pads:
  assumes "count_digit_then CHR ''x'' d = 2"
  shows "DatFile_parse_format d =
     (case findall_f d of
        [] \<Rightarrow> Inl IndexError
      | num_format # _ \<Rightarrow>
          (case search_cols d of
             None \<Rightarrow> Inl AttributeError
           | Some g \<Rightarrow>
               Inr (replicate (int_of_digits (findall_digits_then CHR ''x'' d ! 0)) CHR '' ''
                    @ concat (replicate (int_of_digits g)
                        ([CHR 0x7B] @ '':<'' @ num_format @ ''f'' @ [CHR 0x7D]
                         @ replicate (int_of_digits (findall_digits_then CHR ''x'' d ! 1))
                             CHR '' '')))))"
proof -
  have "length (findall_digits_then CHR ''x'' d) = 2"
    using assms findall_digits_then_count[OF not_digit_x, of d] by simp
  then have "findall_digits_then CHR ''x'' d
      = [findall_digits_then CHR ''x'' d ! 0, findall_digits_then CHR ''x'' d ! 1]"
    by (rule length_two)
  then obtain p q where pq: "findall_digits_then CHR ''x'' d = [p, q]" by blast
  show ?thesis
    unfolding DatFile_parse_format_def pq by (simp split: list.split option.split)
qed

text \<open>
  C5, as the code has it. Parsing raises when the descriptor does not hold exactly two
  padding tokens (\<^verbatim>\<open>ValueError\<close> from the unpacking), else when it holds no \<^verbatim>\<open>f\<close> followed
  by a digit or a point (\<^verbatim>\<open>IndexError\<close>), else when it holds no repeat-count token
  (\<^verbatim>\<open>AttributeError\<close>). Otherwise it returns the template: as many blanks as the first
  padding token says, then, as often as the first repeat-count token says, the field
  \<^verbatim>\<open>{:<\<close>\<open>spec\<close>\<^verbatim>\<open>f}\<close> followed by as many blanks as the second padding token says, where
  \<open>spec\<close> is the run of digits and points after the first such \<^verbatim>\<open>f\<close>, taken as it is.
\<close>

theorem parse_format_outcome:
  "(count_digit_then CHR ''x'' d \<noteq> 2 \<longrightarrow> DatFile_parse_format d = Inl ValueError)
   \<and> (count_digit_then CHR ''x'' d = 2 \<and> \<not> has_field_spec d
        \<longrightarrow> DatFile_parse_format d = Inl IndexError)
   \<and> (count_digit_then CHR ''x'' d = 2 \<and> has_field_spec d \<and> count_digit_then CHR 0x28 d = 0
        \<longrightarrow> DatFile_parse_format d = Inl AttributeError)
   \<and> (count_digit_then CHR ''x'' d = 2 \<and> has_field_spec d \<and> 0 < count_digit_then CHR 0x28 d
        \<longrightarrow> DatFile_parse_format d =
              Inr (replicate (int_of_digits (findall_digits_then CHR ''x'' d ! 0)) CHR '' ''
                   @ concat (replicate (int_of_digits (hd (findall_digits_then CHR 0x28 d)))
                       ([CHR 0x7B] @ '':<'' @ hd (findall_f d) @ ''f'' @ [CHR 0x7D]
                        @ replicate (int_of_digits (findall_digits_then CHR ''x'' d ! 1))
                            CHR '' ''))))"
proof (intro conjI impI)
  assume "count_digit_then CHR ''x'' d \<noteq> 2"
  then show "DatFile_parse_format d = Inl ValueError" by (rule parse_format_pads)
next
  assume a: "count_digit_then CHR ''x'' d = 2 \<and> \<not> has_field_spec d"
  then have "findall_f d = []" using findall_f_nonempty[of d] by simp
  then show "DatFile_parse_format d = Inl IndexError"
    using a by (simp add: parse_format_two_pads)
next
  assume a: "count_digit_then CHR ''x'' d = 2 \<and> has_field_spec d \<and> count_digit_then CHR 0x28 d = 0"
  then obtain nf r where "findall_f d = nf # r"
    using findall_f_nonempty[of d] by (cases "findall_f d") auto
  then show "DatFile_parse_format d = Inl AttributeError"
    using a by (simp add: parse_format_two_pads search_cols_count)
next
  assume a: "count_digit_then CHR ''x'' d = 2 \<and> has_field_spec d \<and> 0 < count_digit_then CHR 0x28 d"
  then obtain nf r where "findall_f d = nf # r"
    using findall_f_nonempty[of d] by (cases "findall_f d") auto
  then show "DatFile_parse_format d =
              Inr (replicate (int_of_digits (findall_digits_then CHR ''x'' d ! 0)) CHR '' ''
                   @ concat (replicate (int_of_digits (hd (findall_digits_then CHR 0x28 d)))
                       ([CHR 0x7B] @ '':<'' @ hd (findall_f d) @ ''f'' @ [CHR 0x7D]
                        @ replicate (int_of_digits (findall_digits_then CHR ''x'' d ! 1))
                            CHR '' '')))"
    using a by (simp add: parse_format_two_pads search_cols_count)
qed

subsection \<open>Descriptors evaluated\<close>

lemma ex_desc_pads: "findall_digits_then CHR ''x'' ''(5x,4(f10.5,3x))'' = [''5'', ''3'']"
  by (simp add: isdigit_def)
lemma ex_desc_field: "findall_f ''(5x,4(f10.5,3x))'' = [''10.5'']"
  by (simp add: isspecchar_def isdigit_def)
lemma ex_desc_cols: "findall_digits_then CHR 0x28 ''(5x,4(f10.5,3x))'' = [''4'']"
  by (simp add: isdigit_def)

lemma rhe_int: "round_half_even (of_int k) = k"
  by (simp add: round_half_even_def)

lemma rhe_100000: "round_half_even 100000 = 100000" "round_half_even 200000 = 200000"
  "round_half_even 300000 = 300000" "round_half_even 400000 = 400000"
  using rhe_int[of 100000] rhe_int[of 200000] rhe_int[of 300000] rhe_int[of 400000]
  by simp_all

lemma digits10_lt10: "n < 10 \<Longrightarrow> digits10 n = [digit_char n]"
  by (subst digits10.simps) simp

lemma digits10_small: "digits10 0 = ''0''" "digits10 (Suc 0) = ''1''" "digits10 2 = ''2''"
  "digits10 3 = ''3''" "digits10 4 = ''4''"
  using digits10_lt10[of 0] digits10_lt10[of 1] digits10_lt10[of 2] digits10_lt10[of 3]
    digits10_lt10[of 4]
  by (simp_all add: digit_char_def)

lemma fmt_fixed_5: "fmt_fixed 5 1 = ''1.00000''" "fmt_fixed 5 2 = ''2.00000''"
  "fmt_fixed 5 3 = ''3.00000''" "fmt_fixed 5 4 = ''4.00000''"
  by (simp_all add: fmt_fixed_def Let_def rhe_100000 digits10_small replicate_num)

lemma parse_num_format_10_5: "parse_num_format ''10.5'' = Inr (CHR '' '', 10, 5)"
  by (simp add: parse_num_format_def isdigit_def int_of_digits_def digit_val_def Let_def)

lemma render_field_10_5:
  "render_field '':<10.5f'' (Num 1) = Inr ''1.00000   ''"
  "render_field '':<10.5f'' (Num 2) = Inr ''2.00000   ''"
  "render_field '':<10.5f'' (Num 3) = Inr ''3.00000   ''"
  "render_field '':<10.5f'' (Num 4) = Inr ''4.00000   ''"
  by (simp_all add: render_field_def parse_num_format_10_5 ljust_def fmt_f_def fmt_fixed_5
      replicate_num)

lemma py_format_ex:
  "py_format ''     {:<10.5f}   {:<10.5f}   {:<10.5f}   {:<10.5f}   ''
       [Num 1, Num 2, Num 3, Num 4]
   = Inr ''     1.00000      2.00000      3.00000      4.00000      ''"
  by (simp add: py_format_def render_field_10_5)

lemma float_ex_round:
  "py_float ''1.00000'' = Inr (Num 1)" "py_float ''2.00000'' = Inr (Num 2)"
  "py_float ''3.00000'' = Inr (Num 3)" "py_float ''4.00000'' = Inr (Num 4)"
  by (simp_all add: py_float_def py_strip_def isspace_def lower_def parse_decimal_def isdigit_def
      parse_exponent_def int_of_digits_def digit_val_def double_overflow_def)

lemma split_ex_round:
  "split_ws ''     1.00000      2.00000      3.00000      4.00000      ''
   = [''1.00000'', ''2.00000'', ''3.00000'', ''4.00000'']"
  by (simp add: split_ws_def isspace_def)

theorem parse_format_outcome_witness:
  "DatFile_parse_format ''(4(f10.5,3x))'' = Inl ValueError
   \<and> DatFile_parse_format ''(5x,4(3x))'' = Inl IndexError
   \<and> DatFile_parse_format ''(5x,f10.5,3x)'' = Inl AttributeError
   \<and> DatFile_parse_format ''(5x,4(f10.5,3x))''
       = Inr ''     {:<10.5f}   {:<10.5f}   {:<10.5f}   {:<10.5f}   ''"
proof -
  have a: "count_digit_then CHR ''x'' ''(4(f10.5,3x))'' \<noteq> 2"
    by (simp add: isdigit_def)
  have b: "count_digit_then CHR ''x'' ''(5x,4(3x))'' = 2 \<and> \<not> has_field_spec ''(5x,4(3x))''"
    by (simp add: isdigit_def isspecchar_def)
  have c: "count_digit_then CHR ''x'' ''(5x,f10.5,3x)'' = 2 \<and> has_field_spec ''(5x,f10.5,3x)''
      \<and> count_digit_then CHR 0x28 ''(5x,f10.5,3x)'' = 0"
    by (simp add: isdigit_def isspecchar_def)
  have d: "count_digit_then CHR ''x'' ''(5x,4(f10.5,3x))'' = 2
      \<and> has_field_spec ''(5x,4(f10.5,3x))''
      \<and> 0 < count_digit_then CHR 0x28 ''(5x,4(f10.5,3x))''"
    by (simp add: isdigit_def isspecchar_def)
  show ?thesis
    using parse_format_outcome[of "''(4(f10.5,3x))''"] a
      parse_format_outcome[of "''(5x,4(3x))''"] b
      parse_format_outcome[of "''(5x,f10.5,3x)''"] c
      parse_format_outcome[of "''(5x,4(f10.5,3x))''"] d
    by (simp add: ex_desc_pads ex_desc_field ex_desc_cols int_of_digits_def digit_val_def
        replicate_num isdigit_def isspecchar_def)
qed

text \<open>
  The claim C5 has parsing fail on a malformed field specifier. The descriptor
  \<^verbatim>\<open>(5x,4(f1.2.3,3x))\<close> holds the specifier \<^verbatim>\<open>1.2.3\<close>, which is no width and precision;
  parsing returns a template with it, and only rendering with that template raises.
\<close>

theorem malformed_field_spec_accepted_counterexample:
  "has_field_spec ''(5x,4(f1.2.3,3x))''
   \<and> DatFile_parse_format ''(5x,4(f1.2.3,3x))''
       = Inr ''     {:<1.2.3f}   {:<1.2.3f}   {:<1.2.3f}   {:<1.2.3f}   ''
   \<and> py_format ''     {:<1.2.3f}   {:<1.2.3f}   {:<1.2.3f}   {:<1.2.3f}   ''
         [Num 1, Num 2, Num 3, Num 4]
       = Inl ValueError"
proof -
  have 1: "has_field_spec ''(5x,4(f1.2.3,3x))''"
    by (simp add: isspecchar_def isdigit_def)
  have 2: "DatFile_parse_format ''(5x,4(f1.2.3,3x))''
       = Inr ''     {:<1.2.3f}   {:<1.2.3f}   {:<1.2.3f}   {:<1.2.3f}   ''"
    by (simp add: DatFile_parse_format_def search_cols_def isspecchar_def isdigit_def
        int_of_digits_def digit_val_def replicate_num)
  have r: "render_field '':<1.2.3f'' (Num 1) = Inl ValueError"
    by (simp add: render_field_def parse_num_format_def isdigit_def Let_def)
  have 3: "py_format ''     {:<1.2.3f}   {:<1.2.3f}   {:<1.2.3f}   {:<1.2.3f}   ''
         [Num 1, Num 2, Num 3, Num 4]
       = Inl ValueError"
    by (simp add: py_format_def r)
  from 1 2 3 show ?thesis by blast
qed

text \<open>
  C9. For a descriptor whose padding tokens are 5 and 3, whose field specifier is
  \<^verbatim>\<open>10.5\<close> and whose repeat count is 4, \<^verbatim>\<open>set_format\<close> stores the template of five blanks
  and four fields \<^verbatim>\<open>{:<10.5f}\<close> each followed by three blanks; \<^verbatim>\<open>format_line\<close> renders the
  values 1.0, 2.0, 3.0, 4.0 with it to one line, and reading the tokens of that line as
  floats gives 1.0, 2.0, 3.0, 4.0 again.
\<close>

theorem format_round_trip:
  assumes "findall_digits_then CHR ''x'' d = [''5'', ''3'']"
    and "findall_f d = ''10.5'' # r"
    and "search_cols d = Some ''4''"
    and "DatFile_set_format def_lines f = Inr f'" and "last def_lines = d" and "def_lines \<noteq> []"
    and "n < length (lines f')"
  shows "frmt_str f' = ''     {:<10.5f}   {:<10.5f}   {:<10.5f}   {:<10.5f}   ''
     \<and> VFile_format_line [Num 1, Num 2, Num 3, Num 4] n f'
         = Inr (f'\<lparr>lines := (lines f')
                  [n := ''     1.00000      2.00000      3.00000      4.00000      '']\<rparr>)
     \<and> float_list (split_ws ''     1.00000      2.00000      3.00000      4.00000      '')
         = Inr [Num 1, Num 2, Num 3, Num 4]"
proof -
  have p: "DatFile_parse_format d = Inr ''     {:<10.5f}   {:<10.5f}   {:<10.5f}   {:<10.5f}   ''"
    using assms(1,2,3)
    by (simp add: DatFile_parse_format_def int_of_digits_def digit_val_def replicate_num)
  have 1: "frmt_str f' = ''     {:<10.5f}   {:<10.5f}   {:<10.5f}   {:<10.5f}   ''"
    using assms(4,5,6) p
    by (auto simp: DatFile_set_format_def DatFile_lines_format_def)
  have 2: "VFile_format_line [Num 1, Num 2, Num 3, Num 4] n f'
         = Inr (f'\<lparr>lines := (lines f')
                  [n := ''     1.00000      2.00000      3.00000      4.00000      '']\<rparr>)"
    using assms(7) by (simp add: VFile_format_line_def 1 py_format_ex)
  have 3: "float_list (split_ws ''     1.00000      2.00000      3.00000      4.00000      '')
         = Inr [Num 1, Num 2, Num 3, Num 4]"
    by (simp add: split_ex_round float_ex_round)
  from 1 2 3 show ?thesis by blast
qed

theorem format_round_trip_witness:
  "DatFile_set_format [''c sd table'', ''(5x,4(f10.5,3x))'']
       \<lparr>lines = [''1 1.0 2.0 3.0 4.0''], frmt_str = [],
        sdfile = \<lparr>sd_lines = [], block_nums = [], num_blocks = 0, cols = None, rnd = []\<rparr>\<rparr>
     = Inr \<lparr>lines = [''1 1.0 2.0 3.0 4.0''],
            frmt_str = ''     {:<10.5f}   {:<10.5f}   {:<10.5f}   {:<10.5f}   '',
            sdfile = \<lparr>sd_lines = [], block_nums = [], num_blocks = 0, cols = None, rnd = []\<rparr>\<rparr>
   \<and> VFile_format_line [Num 1, Num 2, Num 3, Num 4] 0
       \<lparr>lines = [''1 1.0 2.0 3.0 4.0''],
        frmt_str = ''     {:<10.5f}   {:<10.5f}   {:<10.5f}   {:<10.5f}   '',
        sdfile = \<lparr>sd_lines = [], block_nums = [], num_blocks = 0, cols = None, rnd = []\<rparr>\<rparr>
     = Inr \<lparr>lines = [''     1.00000      2.00000      3.00000      4.00000      ''],
            frmt_str = ''     {:<10.5f}   {:<10.5f}   {:<10.5f}   {:<10.5f}   '',
            sdfile = \<lparr>sd_lines = [], block_nums = [], num_blocks = 0, cols = None, rnd = []\<rparr>\<rparr>
   \<and> float_list (split_ws ''     1.00000      2.00000      3.00000      4.00000      '')
       = Inr [Num 1, Num 2, Num 3, Num 4]"
proof -
  let ?f = "\<lparr>lines = [''1 1.0 2.0 3.0 4.0''], frmt_str = [],
        sdfile = \<lparr>sd_lines = [], block_nums = [], num_blocks = 0, cols = None, rnd = []\<rparr>\<rparr>"
  let ?f' = "\<lparr>lines = [''1 1.0 2.0 3.0 4.0''],
            frmt_str = ''     {:<10.5f}   {:<10.5f}   {:<10.5f}   {:<10.5f}   '',
            sdfile = \<lparr>sd_lines = [], block_nums = [], num_blocks = 0, cols = None, rnd = []\<rparr>\<rparr>"
  have cols: "search_cols ''(5x,4(f10.5,3x))'' = Some ''4''"
    by (simp add: search_cols_def isdigit_def)
  have sf: "DatFile_set_format [''c sd table'', ''(5x,4(f10.5,3x))''] ?f = Inr ?f'"
    by (simp add: DatFile_set_format_def DatFile_lines_format_def DatFile_parse_format_def
        ex_desc_pads ex_desc_field cols int_of_digits_def digit_val_def replicate_num
        isdigit_def isspecchar_def)
  have "frmt_str ?f' = ''     {:<10.5f}   {:<10.5f}   {:<10.5f}   {:<10.5f}   ''
     \<and> VFile_format_line [Num 1, Num 2, Num 3, Num 4] 0 ?f'
         = Inr (?f'\<lparr>lines := (lines ?f')
                  [0 := ''     1.00000      2.00000      3.00000      4.00000      '']\<rparr>)
     \<and> float_list (split_ws ''     1.00000      2.00000      3.00000      4.00000      '')
         = Inr [Num 1, Num 2, Num 3, Num 4]"
    by (rule format_round_trip[OF ex_desc_pads ex_desc_field cols sf]) simp_all
  then show ?thesis using sf by simp
qed

end
